theory Spec2Isabelle
  imports Complex_Main "HOL-Library.AList" "HOL-Library.Sublist"
begin

section \<open>Errors (exceptions.py)\<close>

text \<open>
  The four exception classes of \<^verbatim>\<open>exceptions.py\<close>, and the two built-in Python
  exceptions the modelled code can raise: \<open>NameError\<close> (a name that the module never
  imported; the payload is that name) and \<open>KeyError\<close> (a missing dictionary key).
  Message strings are not modelled.
\<close>

datatype error =
    InvalidInputError
  | NodeNotFoundError
  | EdgeNotFoundError
  | NetworkNotValidError
  | NameError string
  | KeyError string

section \<open>Data model (graph.py)\<close>

text \<open>
  Capacities and flows are Python floats in the source; they are modelled as exact
  rationals, so rounding, infinities and NaN are outside the model.
  A Python \<^verbatim>\<open>dict\<close> keeps insertion order; it is an association list here, written
  with \<open>AList.update\<close> (replace in place, or append a new key at the end) and
  \<open>AList.delete\<close>.
\<close>

record Node =
  node_id :: string
  node_name :: string
  is_source :: bool
  is_sink :: bool

record Edge =
  edge_id :: string
  start_node_id :: string
  end_node_id :: string
  capacity :: rat
  flow :: rat

record Graph =
  nodes :: "(string \<times> Node) list"
  edges :: "(string \<times> Edge) list"
  adjacency_list :: "(string \<times> string list) list"

definition has_key :: "('k \<times> 'v) list \<Rightarrow> 'k \<Rightarrow> bool" where
  "has_key d k = (map_of d k \<noteq> None)"

text \<open>\<^verbatim>\<open>Node.__post_init__\<close>.\<close>

definition Node_init :: "string \<Rightarrow> string \<Rightarrow> bool \<Rightarrow> bool \<Rightarrow> error + Node" where
  "Node_init i nm src snk =
     (if i = [] then Inl InvalidInputError
      else Inr \<lparr>node_id = i, node_name = (if nm = [] then i else nm),
                is_source = src, is_sink = snk\<rparr>)"

text \<open>\<^verbatim>\<open>Edge.__post_init__\<close>.\<close>

definition Edge_init :: "string \<Rightarrow> string \<Rightarrow> string \<Rightarrow> rat \<Rightarrow> rat \<Rightarrow> error + Edge" where
  "Edge_init i s t c f =
     (if i = [] then Inl InvalidInputError
      else if c < 0 then Inl InvalidInputError
      else if f < 0 then Inl InvalidInputError
      else if f > c then Inl InvalidInputError
      else Inr \<lparr>edge_id = i, start_node_id = s, end_node_id = t, capacity = c, flow = f\<rparr>)"

definition residual_capacity :: "Edge \<Rightarrow> rat" where
  "residual_capacity e = capacity e - flow e"

definition Graph_init :: Graph where
  "Graph_init = \<lparr>nodes = [], edges = [], adjacency_list = []\<rparr>"

text \<open>
  \<^verbatim>\<open>Graph.add_node\<close>. Every raise precedes the first mutation, so on an error the
  caller's graph is the one it passed in. The Python method also returns the stored
  node, which is \<open>map_of (nodes g') i\<close> of the result.
\<close>

definition add_node :: "Graph \<Rightarrow> string \<Rightarrow> string \<Rightarrow> bool \<Rightarrow> bool \<Rightarrow> error + Graph" where
  "add_node g i nm src snk =
     (if has_key (nodes g) i then Inl InvalidInputError
      else case Node_init i (if nm = [] then i else nm) src snk of
             Inl e \<Rightarrow> Inl e
           | Inr node \<Rightarrow>
               Inr (g\<lparr>nodes := AList.update i node (nodes g),
                       adjacency_list := AList.update i [] (adjacency_list g)\<rparr>))"

text \<open>
  \<^verbatim>\<open>Graph.get_node\<close> and \<^verbatim>\<open>Graph.get_edge\<close>. \<^verbatim>\<open>graph.py\<close> imports only
  \<^verbatim>\<open>InvalidInputError\<close> from \<^verbatim>\<open>exceptions.py\<close>, so evaluating
  \<^verbatim>\<open>raise NodeNotFoundError(node_id)\<close> there raises Python's \<^verbatim>\<open>NameError\<close>
  for the unbound name, and likewise for \<^verbatim>\<open>EdgeNotFoundError\<close>.
\<close>

definition get_node :: "Graph \<Rightarrow> string \<Rightarrow> error + Node" where
  "get_node g i =
     (case map_of (nodes g) i of
        None \<Rightarrow> Inl (NameError ''NodeNotFoundError'')
      | Some n \<Rightarrow> Inr n)"

definition get_edge :: "Graph \<Rightarrow> string \<Rightarrow> error + Edge" where
  "get_edge g i =
     (case map_of (edges g) i of
        None \<Rightarrow> Inl (NameError ''EdgeNotFoundError'')
      | Some e \<Rightarrow> Inr e)"

text \<open>
  \<^verbatim>\<open>Graph.add_edge\<close>: the new edge has flow 0 (the dataclass default). The store into
  \<^verbatim>\<open>self.adjacency_list[start_node_id]\<close> raises \<^verbatim>\<open>KeyError\<close> when the start node
  has no adjacency entry.
\<close>

definition add_edge :: "Graph \<Rightarrow> string \<Rightarrow> string \<Rightarrow> string \<Rightarrow> rat \<Rightarrow> error + Graph" where
  "add_edge g i s t c =
     (if has_key (edges g) i then Inl InvalidInputError
      else case get_node g s of
        Inl e \<Rightarrow> Inl e
      | Inr _ \<Rightarrow>
     (case get_node g t of
        Inl e \<Rightarrow> Inl e
      | Inr _ \<Rightarrow>
     (if s = t then Inl InvalidInputError
      else case Edge_init i s t c 0 of
        Inl e \<Rightarrow> Inl e
      | Inr edge \<Rightarrow>
     (case map_of (adjacency_list g) s of
        None \<Rightarrow> Inl (KeyError s)
      | Some adj \<Rightarrow>
          Inr (g\<lparr>edges := AList.update i edge (edges g),
                  adjacency_list := AList.update s (adj @ [i]) (adjacency_list g)\<rparr>)))))"

text \<open>\<^verbatim>\<open>Graph.remove_edge\<close>; \<^verbatim>\<open>list.remove\<close> deletes the first occurrence.\<close>

definition remove_edge :: "Graph \<Rightarrow> string \<Rightarrow> error + Graph" where
  "remove_edge g i =
     (case map_of (edges g) i of
        None \<Rightarrow> Inl (NameError ''EdgeNotFoundError'')
      | Some edge \<Rightarrow>
          Inr (g\<lparr>edges := AList.delete i (edges g),
                  adjacency_list :=
                    (case map_of (adjacency_list g) (start_node_id edge) of
                       None \<Rightarrow> adjacency_list g
                     | Some adj \<Rightarrow>
                         if i \<in> set adj
                         then AList.update (start_node_id edge) (remove1 i adj) (adjacency_list g)
                         else adjacency_list g)\<rparr>))"

text \<open>A \<^verbatim>\<open>for\<close> loop whose body may raise: the first error ends the loop.\<close>

fun for_each :: "('a \<Rightarrow> 's \<Rightarrow> error + 's) \<Rightarrow> 'a list \<Rightarrow> 's \<Rightarrow> error + 's" where
  "for_each f [] s = Inr s"
| "for_each f (x # xs) s =
     (case f x s of Inl e \<Rightarrow> Inl e | Inr s' \<Rightarrow> for_each f xs s')"

text \<open>\<^verbatim>\<open>Graph.remove_node\<close>.\<close>

definition remove_node :: "Graph \<Rightarrow> string \<Rightarrow> error + Graph" where
  "remove_node g i =
     (if \<not> has_key (nodes g) i then Inl (NameError ''NodeNotFoundError'')
      else
        let edges_to_remove =
              map fst (filter (\<lambda>(k, e). start_node_id e = i \<or> end_node_id e = i) (edges g))
        in case for_each (\<lambda>k g'. remove_edge g' k) edges_to_remove g of
             Inl e \<Rightarrow> Inl e
           | Inr g' \<Rightarrow>
               if \<not> has_key (adjacency_list g') i then Inl (KeyError i)
               else Inr (g'\<lparr>nodes := AList.delete i (nodes g'),
                            adjacency_list := AList.delete i (adjacency_list g')\<rparr>))"

text \<open>
  \<^verbatim>\<open>Graph.get_edges_from_node\<close>: an unknown node gives the empty list; an adjacency
  entry naming an edge that is not stored raises \<^verbatim>\<open>KeyError\<close>.
\<close>

fun lookup_all :: "(string \<times> 'v) list \<Rightarrow> string list \<Rightarrow> error + 'v list" where
  "lookup_all d [] = Inr []"
| "lookup_all d (k # ks) =
     (case map_of d k of
        None \<Rightarrow> Inl (KeyError k)
      | Some v \<Rightarrow> (case lookup_all d ks of Inl e \<Rightarrow> Inl e | Inr vs \<Rightarrow> Inr (v # vs)))"

definition get_edges_from_node :: "Graph \<Rightarrow> string \<Rightarrow> error + Edge list" where
  "get_edges_from_node g i =
     (case map_of (adjacency_list g) i of
        None \<Rightarrow> Inr []
      | Some adj \<Rightarrow> lookup_all (edges g) adj)"

definition get_all_nodes :: "Graph \<Rightarrow> Node list" where
  "get_all_nodes g = map snd (nodes g)"

definition get_all_edges :: "Graph \<Rightarrow> Edge list" where
  "get_all_edges g = map snd (edges g)"

definition get_source_nodes :: "Graph \<Rightarrow> Node list" where
  "get_source_nodes g = filter is_source (map snd (nodes g))"

definition get_sink_nodes :: "Graph \<Rightarrow> Node list" where
  "get_sink_nodes g = filter is_sink (map snd (nodes g))"

section \<open>Python string operations used by the solver\<close>

text \<open>\<^verbatim>\<open>s.endswith(suf)\<close>.\<close>

definition endswith :: "string \<Rightarrow> string \<Rightarrow> bool" where
  "endswith s suf = (length suf \<le> length s \<and> drop (length s - length suf) s = suf)"

text \<open>
  \<^verbatim>\<open>s.replace(old, '')\<close> for a non-empty \<open>old\<close>: every non-overlapping occurrence
  of \<open>old\<close>, scanning from the left, is deleted. The counter is the number of characters
  of the current occurrence still to be skipped.
\<close>

fun replace_skip :: "string \<Rightarrow> nat \<Rightarrow> string \<Rightarrow> string" where
  "replace_skip old k [] = []"
| "replace_skip old (Suc k) (c # cs) = replace_skip old k cs"
| "replace_skip old 0 (c # cs) =
     (if prefix old (c # cs) then replace_skip old (length old - 1) cs
      else c # replace_skip old 0 cs)"

definition str_remove :: "string \<Rightarrow> string \<Rightarrow> string" where
  "str_remove s old = (if old = [] then s else replace_skip old 0 s)"

section \<open>The solver (algorithms.py)\<close>

record FordFulkerson =
  graph :: Graph
  residual_graph :: Graph

text \<open>
  \<^verbatim>\<open>FordFulkerson._build_residual_graph\<close>: adds to \<^verbatim>\<open>self.residual_graph\<close>, which
  both callers have just set to a fresh \<^verbatim>\<open>Graph()\<close>.
\<close>

definition copy_node_step :: "Node \<Rightarrow> Graph \<Rightarrow> error + Graph" where
  "copy_node_step node rg = add_node rg (node_id node) (node_name node) (is_source node) (is_sink node)"

definition residual_edge_step :: "Edge \<Rightarrow> Graph \<Rightarrow> error + Graph" where
  "residual_edge_step edge rg =
     (case (if residual_capacity edge > 0
            then add_edge rg (edge_id edge @ ''_forward'') (start_node_id edge) (end_node_id edge)
                   (residual_capacity edge)
            else Inr rg) of
        Inl e \<Rightarrow> Inl e
      | Inr rg' \<Rightarrow>
          if flow edge > 0
          then add_edge rg' (edge_id edge @ ''_backward'') (end_node_id edge) (start_node_id edge)
                 (flow edge)
          else Inr rg')"

definition build_residual_graph :: "FordFulkerson \<Rightarrow> error + FordFulkerson" where
  "build_residual_graph ff =
     (case for_each copy_node_step (get_all_nodes (graph ff)) (residual_graph ff) of
        Inl e \<Rightarrow> Inl e
      | Inr rg \<Rightarrow>
     (case for_each residual_edge_step (get_all_edges (graph ff)) rg of
        Inl e \<Rightarrow> Inl e
      | Inr rg' \<Rightarrow> Inr (ff\<lparr>residual_graph := rg'\<rparr>)))"

text \<open>\<^verbatim>\<open>FordFulkerson.__init__\<close>.\<close>

definition FordFulkerson_init :: "Graph \<Rightarrow> error + FordFulkerson" where
  "FordFulkerson_init g = build_residual_graph \<lparr>graph = g, residual_graph = Graph_init\<rparr>"

text \<open>
  \<^verbatim>\<open>FordFulkerson._bfs\<close>. The state of the \<^verbatim>\<open>while\<close> loop is the set
  \<^verbatim>\<open>visited\<close>, the dictionary \<^verbatim>\<open>parent\<close> and the deque \<^verbatim>\<open>queue\<close>;
  \<open>bfs_visit\<close> is the body of the inner \<^verbatim>\<open>for\<close> loop. The result \<open>None\<close> is
  Python's \<^verbatim>\<open>None\<close> (no path).
\<close>

type_synonym parent_map = "(string \<times> (string \<times> string)) list"

definition bfs_visit ::
  "string \<Rightarrow> string set \<times> parent_map \<times> string list \<Rightarrow> Edge
     \<Rightarrow> string set \<times> parent_map \<times> string list" where
  "bfs_visit current_id st edge =
     (case st of (visited, parent, queue) \<Rightarrow>
        let neighbor_id = end_node_id edge in
        if neighbor_id \<notin> visited \<and> capacity edge > 0
        then (insert neighbor_id visited,
              AList.update neighbor_id (current_id, edge_id edge) parent,
              queue @ [neighbor_id])
        else (visited, parent, queue))"

definition edge_ends :: "Graph \<Rightarrow> string set" where
  "edge_ends g = end_node_id ` snd ` set (edges g)"

function bfs_loop ::
  "Graph \<Rightarrow> string \<Rightarrow> string set \<Rightarrow> parent_map \<Rightarrow> string list \<Rightarrow> error + parent_map option" where
  "bfs_loop rg sink_id visited parent [] = Inr None"
| "bfs_loop rg sink_id visited parent (current_id # queue) =
     (if current_id = sink_id then Inr (Some parent)
      else case get_edges_from_node rg current_id of
        Inl e \<Rightarrow> Inl e
      | Inr es \<Rightarrow>
          (case foldl (bfs_visit current_id) (visited, parent, queue) es of
             (visited', parent', queue') \<Rightarrow> bfs_loop rg sink_id visited' parent' queue'))"
  by pat_completeness auto

lemma lookup_all_subset: "lookup_all d ks = Inr vs \<Longrightarrow> set vs \<subseteq> snd ` set d"
proof (induction ks arbitrary: vs)
  case Nil then show ?case by simp
next
  case (Cons k ks)
  from Cons.prems obtain v vs' where v: "map_of d k = Some v" "lookup_all d ks = Inr vs'" "vs = v # vs'"
    by (auto split: option.splits sum.splits)
  from v(1) have "v \<in> snd ` set d" by (force dest: map_of_SomeD)
  with Cons.IH[OF v(2)] v(3) show ?case by simp
qed

lemma get_edges_from_node_subset:
  "get_edges_from_node g i = Inr es \<Longrightarrow> set es \<subseteq> snd ` set (edges g)"
  by (auto simp: get_edges_from_node_def split: option.splits dest: lookup_all_subset)

lemma bfs_visit_pair:
  "bfs_visit c (V, P, Q) e =
     (if end_node_id e \<notin> V \<and> capacity e > 0
      then (insert (end_node_id e) V, AList.update (end_node_id e) (c, edge_id e) P, Q @ [end_node_id e])
      else (V, P, Q))"
  by (simp add: bfs_visit_def Let_def)

lemma foldl_bfs_visit_shape:
  "foldl (bfs_visit c) (V, P, Q) es = (V', P', Q') \<Longrightarrow>
   \<exists>new. Q' = Q @ new \<and> distinct new \<and> set new \<inter> V = {} \<and> V' = V \<union> set new
         \<and> set new \<subseteq> end_node_id ` set es"
proof (induction es arbitrary: V P Q)
  case Nil then show ?case by simp
next
  case (Cons e es)
  show ?case
  proof (cases "end_node_id e \<notin> V \<and> capacity e > 0")
    case True
    with Cons.prems have "foldl (bfs_visit c) (insert (end_node_id e) V,
        AList.update (end_node_id e) (c, edge_id e) P, Q @ [end_node_id e]) es = (V', P', Q')"
      by (simp add: bfs_visit_pair)
    from Cons.IH[OF this] obtain new where n: "Q' = (Q @ [end_node_id e]) @ new" "distinct new"
      "set new \<inter> insert (end_node_id e) V = {}" "V' = insert (end_node_id e) V \<union> set new"
      "set new \<subseteq> end_node_id ` set es" by blast
    have "Q' = Q @ (end_node_id e # new)" using n(1) by simp
    moreover have "distinct (end_node_id e # new)" using n(2,3) by auto
    moreover have "set (end_node_id e # new) \<inter> V = {}" using n(3) True by auto
    moreover have "V' = V \<union> set (end_node_id e # new)" using n(4) by auto
    moreover have "set (end_node_id e # new) \<subseteq> end_node_id ` set (e # es)" using n(5) by auto
    ultimately show ?thesis by blast
  next
    case False
    with Cons.prems have "foldl (bfs_visit c) (V, P, Q) es = (V', P', Q')"
      by (simp add: bfs_visit_pair)
    from Cons.IH[OF this] show ?thesis by auto
  qed
qed

lemma bfs_measure_decreases:
  assumes "get_edges_from_node rg c = Inr es"
    and "foldl (bfs_visit c) (V, P, Q) es = (V', P', Q')"
  shows "card (edge_ends rg - V') + length Q' < card (edge_ends rg - V) + length (c # Q)"
proof -
  from foldl_bfs_visit_shape[OF assms(2)] obtain new where n: "Q' = Q @ new" "distinct new"
      "set new \<inter> V = {}" "V' = V \<union> set new" "set new \<subseteq> end_node_id ` set es" by blast
  have "end_node_id ` set es \<subseteq> edge_ends rg"
    unfolding edge_ends_def using get_edges_from_node_subset[OF assms(1)] by (rule image_mono)
  with n(3,5) have sub: "set new \<subseteq> edge_ends rg - V" by auto
  have fin: "finite (edge_ends rg - V)" by (simp add: edge_ends_def)
  have "edge_ends rg - V' = (edge_ends rg - V) - set new" using n(4) by auto
  then have "card (edge_ends rg - V') = card (edge_ends rg - V) - card (set new)"
    using sub fin by (simp add: card_Diff_subset)
  moreover have "card (set new) \<le> card (edge_ends rg - V)" using sub fin by (simp add: card_mono)
  moreover have "card (set new) = length new" using n(2) by (simp add: distinct_card)
  ultimately show ?thesis using n(1) by simp
qed

termination bfs_loop
  apply (relation "measure (\<lambda>(rg, sink_id, V, P, Q). card (edge_ends rg - V) + length Q)")
   apply simp
  subgoal premises prems for rg sink_id visited parent current_id queue es V' PQ P' Q'
  proof -
    have "foldl (bfs_visit current_id) (visited, parent, queue) es = (V', P', Q')"
      using prems(3,4) by simp
    from bfs_measure_decreases[OF prems(2) this] show ?thesis by simp
  qed
  done

text \<open>
  \<^verbatim>\<open>FordFulkerson._find_augmenting_path\<close>. The \<^verbatim>\<open>while current_id != source_id\<close>
  loop follows the parent dictionary, so it returns only when the chain from the sink
  reaches the source: a loop that does not return is the value \<open>None\<close> of the outer
  option. \<^verbatim>\<open>min_capacity\<close> starts as \<^verbatim>\<open>float('inf')\<close>, which is \<open>None\<close> of the
  inner option; \<^verbatim>\<open>parent[current_id]\<close> raises \<^verbatim>\<open>KeyError\<close> on a missing key.
\<close>

definition min_inf :: "rat option \<Rightarrow> rat \<Rightarrow> rat option" where
  "min_inf m c = (case m of None \<Rightarrow> Some c | Some a \<Rightarrow> Some (min a c))"

partial_function (option) walk_parents ::
  "Graph \<Rightarrow> parent_map \<Rightarrow> string \<Rightarrow> string \<Rightarrow> rat option \<Rightarrow> string list
     \<Rightarrow> (error + rat option \<times> string list) option" where
  "walk_parents rg parent source_id current_id min_capacity path =
     (if current_id = source_id then Some (Inr (min_capacity, path))
      else case map_of parent current_id of
        None \<Rightarrow> Some (Inl (KeyError current_id))
      | Some (prev_id, eid) \<Rightarrow>
          (case get_edge rg eid of
             Inl e \<Rightarrow> Some (Inl e)
           | Inr edge \<Rightarrow>
               walk_parents rg parent source_id prev_id
                 (min_inf min_capacity (capacity edge)) (path @ [eid])))"

declare walk_parents.simps [code]

definition bfs :: "FordFulkerson \<Rightarrow> string \<Rightarrow> string \<Rightarrow> error + parent_map option" where
  "bfs ff source_id sink_id = bfs_loop (residual_graph ff) sink_id {source_id} [] [source_id]"

definition find_augmenting_path ::
  "FordFulkerson \<Rightarrow> string \<Rightarrow> string \<Rightarrow> (error + (rat option \<times> string list) option) option" where
  "find_augmenting_path ff source_id sink_id =
     (case bfs ff source_id sink_id of
        Inl e \<Rightarrow> Some (Inl e)
      | Inr None \<Rightarrow> Some (Inr None)
      | Inr (Some parent) \<Rightarrow>
          if parent = [] then Some (Inr None)
          else (case walk_parents (residual_graph ff) parent source_id sink_id None [] of
                  None \<Rightarrow> None
                | Some (Inl e) \<Rightarrow> Some (Inl e)
                | Some (Inr (min_capacity, path)) \<Rightarrow> Some (Inr (Some (min_capacity, rev path)))))"

text \<open>
  \<^verbatim>\<open>FordFulkerson._update_flows\<close>: one step per arc id of the path. The original edge
  id is computed by \<^verbatim>\<open>edge_id.replace('_forward', '')\<close>, which deletes every
  occurrence of the suffix text in the arc id, not only the last one. The edge object is
  mutated in place, which is an update of its dictionary entry.
\<close>

definition update_flow_step :: "rat \<Rightarrow> string \<Rightarrow> Graph \<Rightarrow> error + Graph" where
  "update_flow_step f arc_id g =
     (if endswith arc_id ''_forward'' then
        (let original_edge_id = str_remove arc_id ''_forward'' in
         case get_edge g original_edge_id of
           Inl e \<Rightarrow> Inl e
         | Inr original_edge \<Rightarrow>
             Inr (g\<lparr>edges := AList.update original_edge_id
                                (original_edge\<lparr>flow := flow original_edge + f\<rparr>) (edges g)\<rparr>))
      else if endswith arc_id ''_backward'' then
        (let original_edge_id = str_remove arc_id ''_backward'' in
         case get_edge g original_edge_id of
           Inl e \<Rightarrow> Inl e
         | Inr original_edge \<Rightarrow>
             Inr (g\<lparr>edges := AList.update original_edge_id
                                (original_edge\<lparr>flow := flow original_edge - f\<rparr>) (edges g)\<rparr>))
      else Inr g)"

definition update_flows :: "FordFulkerson \<Rightarrow> string list \<Rightarrow> rat \<Rightarrow> error + FordFulkerson" where
  "update_flows ff path f =
     (case for_each (update_flow_step f) path (graph ff) of
        Inl e \<Rightarrow> Inl e
      | Inr g' \<Rightarrow> Inr (ff\<lparr>graph := g'\<rparr>))"

text \<open>
  \<^verbatim>\<open>FordFulkerson.calculate_max_flow\<close>. \<open>max_flow_loop\<close> is the \<^verbatim>\<open>while True\<close>
  loop; a run that never reaches \<^verbatim>\<open>break\<close> is the value \<open>None\<close>. A bottleneck of
  \<^verbatim>\<open>float('inf')\<close> comes with the empty path only (see \<open>walk_parents\<close>), so the
  graph is left as it is and the next iteration finds the same path again: that run
  does not return. \<^verbatim>\<open>algorithms.py\<close> imports only \<^verbatim>\<open>NetworkNotValidError\<close>, so
  \<^verbatim>\<open>raise NodeNotFoundError(...)\<close> raises \<^verbatim>\<open>NameError\<close> there.
\<close>

partial_function (option) max_flow_loop ::
  "string \<Rightarrow> string \<Rightarrow> rat \<Rightarrow> FordFulkerson \<Rightarrow> (error + rat \<times> FordFulkerson) option" where
  "max_flow_loop source_id sink_id max_flow ff =
     (case build_residual_graph (ff\<lparr>residual_graph := Graph_init\<rparr>) of
        Inl e \<Rightarrow> Some (Inl e)
      | Inr ff1 \<Rightarrow>
          (case find_augmenting_path ff1 source_id sink_id of
             None \<Rightarrow> None
           | Some (Inl e) \<Rightarrow> Some (Inl e)
           | Some (Inr None) \<Rightarrow> Some (Inr (max_flow, ff1))
           | Some (Inr (Some (None, path))) \<Rightarrow> None
           | Some (Inr (Some (Some f, path))) \<Rightarrow>
               (case update_flows ff1 path f of
                  Inl e \<Rightarrow> Some (Inl e)
                | Inr ff2 \<Rightarrow> max_flow_loop source_id sink_id (max_flow + f) ff2)))"

declare max_flow_loop.simps [code]

definition calculate_max_flow ::
  "FordFulkerson \<Rightarrow> string \<Rightarrow> string \<Rightarrow> (error + rat \<times> FordFulkerson) option" where
  "calculate_max_flow ff source_id sink_id =
     (if \<not> has_key (nodes (graph ff)) source_id then Some (Inl (NameError ''NodeNotFoundError''))
      else if \<not> has_key (nodes (graph ff)) sink_id then Some (Inl (NameError ''NodeNotFoundError''))
      else if source_id = sink_id then Some (Inl NetworkNotValidError)
      else case get_node (graph ff) source_id of
        Inl e \<Rightarrow> Some (Inl e)
      | Inr source_node \<Rightarrow>
          if \<not> is_source source_node then Some (Inl NetworkNotValidError)
          else (case get_node (graph ff) sink_id of
                  Inl e \<Rightarrow> Some (Inl e)
                | Inr sink_node \<Rightarrow>
                    if \<not> is_sink sink_node then Some (Inl NetworkNotValidError)
                    else max_flow_loop source_id sink_id 0 ff))"

text \<open>
  \<^verbatim>\<open>FordFulkerson.get_min_cut\<close>: the same traversal over \<^verbatim>\<open>self.residual_graph\<close>
  without the early exit. \<^verbatim>\<open>S = list(visited)\<close> lists a Python set, whose order is
  not specified, so \<open>S\<close> is the set itself; \<open>T\<close> follows the order of the node
  dictionary.
\<close>

definition reach_visit :: "string set \<times> string list \<Rightarrow> Edge \<Rightarrow> string set \<times> string list" where
  "reach_visit st edge =
     (case st of (visited, queue) \<Rightarrow>
        let neighbor_id = end_node_id edge in
        if neighbor_id \<notin> visited \<and> capacity edge > 0
        then (insert neighbor_id visited, queue @ [neighbor_id])
        else (visited, queue))"

function reach_loop :: "Graph \<Rightarrow> string set \<Rightarrow> string list \<Rightarrow> error + string set" where
  "reach_loop rg visited [] = Inr visited"
| "reach_loop rg visited (current_id # queue) =
     (case get_edges_from_node rg current_id of
        Inl e \<Rightarrow> Inl e
      | Inr es \<Rightarrow>
          (case foldl reach_visit (visited, queue) es of
             (visited', queue') \<Rightarrow> reach_loop rg visited' queue'))"
  by pat_completeness auto

lemma reach_visit_pair:
  "reach_visit (V, Q) e =
     (if end_node_id e \<notin> V \<and> capacity e > 0
      then (insert (end_node_id e) V, Q @ [end_node_id e])
      else (V, Q))"
  by (simp add: reach_visit_def Let_def)

lemma foldl_reach_visit_shape:
  "foldl reach_visit (V, Q) es = (V', Q') \<Longrightarrow>
   \<exists>new. Q' = Q @ new \<and> distinct new \<and> set new \<inter> V = {} \<and> V' = V \<union> set new
         \<and> set new \<subseteq> end_node_id ` set es"
proof (induction es arbitrary: V Q)
  case Nil then show ?case by simp
next
  case (Cons e es)
  show ?case
  proof (cases "end_node_id e \<notin> V \<and> capacity e > 0")
    case True
    with Cons.prems have "foldl reach_visit (insert (end_node_id e) V, Q @ [end_node_id e]) es = (V', Q')"
      by (simp add: reach_visit_pair)
    from Cons.IH[OF this] obtain new where n: "Q' = (Q @ [end_node_id e]) @ new" "distinct new"
      "set new \<inter> insert (end_node_id e) V = {}" "V' = insert (end_node_id e) V \<union> set new"
      "set new \<subseteq> end_node_id ` set es" by blast
    have "Q' = Q @ (end_node_id e # new)" using n(1) by simp
    moreover have "distinct (end_node_id e # new)" using n(2,3) by auto
    moreover have "set (end_node_id e # new) \<inter> V = {}" using n(3) True by auto
    moreover have "V' = V \<union> set (end_node_id e # new)" using n(4) by auto
    moreover have "set (end_node_id e # new) \<subseteq> end_node_id ` set (e # es)" using n(5) by auto
    ultimately show ?thesis by blast
  next
    case False
    with Cons.prems have "foldl reach_visit (V, Q) es = (V', Q')"
      by (simp add: reach_visit_pair)
    from Cons.IH[OF this] show ?thesis by auto
  qed
qed

lemma reach_measure_decreases:
  assumes "get_edges_from_node rg c = Inr es"
    and "foldl reach_visit (V, Q) es = (V', Q')"
  shows "card (edge_ends rg - V') + length Q' < card (edge_ends rg - V) + length (c # Q)"
proof -
  from foldl_reach_visit_shape[OF assms(2)] obtain new where n: "Q' = Q @ new" "distinct new"
      "set new \<inter> V = {}" "V' = V \<union> set new" "set new \<subseteq> end_node_id ` set es" by blast
  have "end_node_id ` set es \<subseteq> edge_ends rg"
    unfolding edge_ends_def using get_edges_from_node_subset[OF assms(1)] by (rule image_mono)
  with n(3,5) have sub: "set new \<subseteq> edge_ends rg - V" by auto
  have fin: "finite (edge_ends rg - V)" by (simp add: edge_ends_def)
  have "edge_ends rg - V' = (edge_ends rg - V) - set new" using n(4) by auto
  then have "card (edge_ends rg - V') = card (edge_ends rg - V) - card (set new)"
    using sub fin by (simp add: card_Diff_subset)
  moreover have "card (set new) \<le> card (edge_ends rg - V)" using sub fin by (simp add: card_mono)
  moreover have "card (set new) = length new" using n(2) by (simp add: distinct_card)
  ultimately show ?thesis using n(1) by simp
qed

termination reach_loop
  apply (relation "measure (\<lambda>(rg, V, Q). card (edge_ends rg - V) + length Q)")
   apply simp
  subgoal premises prems for rg visited current_id queue es V' Q'
  proof -
    have "foldl reach_visit (visited, queue) es = (V', Q')"
      using prems(2) by simp
    from reach_measure_decreases[OF prems(1) this] show ?thesis by simp
  qed
  done

definition get_min_cut :: "FordFulkerson \<Rightarrow> string \<Rightarrow> error + string set \<times> string list" where
  "get_min_cut ff source_id =
     (case reach_loop (residual_graph ff) {source_id} [source_id] of
        Inl e \<Rightarrow> Inl e
      | Inr visited \<Rightarrow>
          Inr (visited, filter (\<lambda>i. i \<notin> visited) (map fst (nodes (graph ff)))))"

section \<open>The facade (flow_network.py)\<close>

text \<open>
  \<^verbatim>\<open>FlowNetwork.graph\<close> and \<^verbatim>\<open>FlowNetwork.algorithm.graph\<close> are one and the same
  \<^verbatim>\<open>Graph\<close> object, so the facade's state is the solver's state.
\<close>

record FlowNetwork =
  algorithm :: FordFulkerson

definition fn_graph :: "FlowNetwork \<Rightarrow> Graph" where
  "fn_graph n = graph (algorithm n)"

definition set_fn_graph :: "FlowNetwork \<Rightarrow> Graph \<Rightarrow> FlowNetwork" where
  "set_fn_graph n g = n\<lparr>algorithm := (algorithm n)\<lparr>graph := g\<rparr>\<rparr>"

definition FlowNetwork_init :: "error + FlowNetwork" where
  "FlowNetwork_init =
     (case FordFulkerson_init Graph_init of
        Inl e \<Rightarrow> Inl e
      | Inr ff \<Rightarrow> Inr \<lparr>algorithm = ff\<rparr>)"

definition fn_add_node :: "FlowNetwork \<Rightarrow> string \<Rightarrow> string \<Rightarrow> bool \<Rightarrow> bool \<Rightarrow> error + FlowNetwork" where
  "fn_add_node n i nm src snk =
     (case add_node (fn_graph n) i nm src snk of
        Inl e \<Rightarrow> Inl e
      | Inr g \<Rightarrow> Inr (set_fn_graph n g))"

definition fn_add_edge :: "FlowNetwork \<Rightarrow> string \<Rightarrow> string \<Rightarrow> string \<Rightarrow> rat \<Rightarrow> error + FlowNetwork" where
  "fn_add_edge n i s t c =
     (case add_edge (fn_graph n) i s t c of
        Inl e \<Rightarrow> Inl e
      | Inr g \<Rightarrow> Inr (set_fn_graph n g))"

definition fn_remove_node :: "FlowNetwork \<Rightarrow> string \<Rightarrow> error + FlowNetwork" where
  "fn_remove_node n i =
     (case remove_node (fn_graph n) i of
        Inl e \<Rightarrow> Inl e
      | Inr g \<Rightarrow> Inr (set_fn_graph n g))"

definition fn_remove_edge :: "FlowNetwork \<Rightarrow> string \<Rightarrow> error + FlowNetwork" where
  "fn_remove_edge n i =
     (case remove_edge (fn_graph n) i of
        Inl e \<Rightarrow> Inl e
      | Inr g \<Rightarrow> Inr (set_fn_graph n g))"

definition fn_get_node :: "FlowNetwork \<Rightarrow> string \<Rightarrow> error + Node" where
  "fn_get_node n i = get_node (fn_graph n) i"

definition fn_get_edge :: "FlowNetwork \<Rightarrow> string \<Rightarrow> error + Edge" where
  "fn_get_edge n i = get_edge (fn_graph n) i"

definition set_node_as_source :: "FlowNetwork \<Rightarrow> string \<Rightarrow> error + FlowNetwork" where
  "set_node_as_source n i =
     (case fn_get_node n i of
        Inl e \<Rightarrow> Inl e
      | Inr node \<Rightarrow>
          Inr (set_fn_graph n ((fn_graph n)\<lparr>nodes :=
                 AList.update i (node\<lparr>is_source := True, is_sink := False\<rparr>) (nodes (fn_graph n))\<rparr>)))"

definition set_node_as_sink :: "FlowNetwork \<Rightarrow> string \<Rightarrow> error + FlowNetwork" where
  "set_node_as_sink n i =
     (case fn_get_node n i of
        Inl e \<Rightarrow> Inl e
      | Inr node \<Rightarrow>
          Inr (set_fn_graph n ((fn_graph n)\<lparr>nodes :=
                 AList.update i (node\<lparr>is_sink := True, is_source := False\<rparr>) (nodes (fn_graph n))\<rparr>)))"

definition get_source_node :: "FlowNetwork \<Rightarrow> error + Node" where
  "get_source_node n =
     (case get_source_nodes (fn_graph n) of
        [] \<Rightarrow> Inl NetworkNotValidError
      | s # _ \<Rightarrow> Inr s)"

definition get_sink_node :: "FlowNetwork \<Rightarrow> error + Node" where
  "get_sink_node n =
     (case get_sink_nodes (fn_graph n) of
        [] \<Rightarrow> Inl NetworkNotValidError
      | s # _ \<Rightarrow> Inr s)"

definition update_edge_capacity :: "FlowNetwork \<Rightarrow> string \<Rightarrow> rat \<Rightarrow> error + FlowNetwork" where
  "update_edge_capacity n i new_capacity =
     (case fn_get_edge n i of
        Inl e \<Rightarrow> Inl e
      | Inr edge \<Rightarrow>
          if new_capacity < flow edge then Inl InvalidInputError
          else Inr (set_fn_graph n ((fn_graph n)\<lparr>edges :=
                      AList.update i (edge\<lparr>capacity := new_capacity\<rparr>) (edges (fn_graph n))\<rparr>)))"


text \<open>\<^verbatim>\<open>FlowNetwork.calculate_max_flow\<close>: returns \<open>(max_flow, S, T)\<close> and the new state.\<close>

definition fn_calculate_max_flow ::
  "FlowNetwork \<Rightarrow> (error + (rat \<times> string set \<times> string list) \<times> FlowNetwork) option" where
  "fn_calculate_max_flow n =
     (case get_source_node n of
        Inl e \<Rightarrow> Some (Inl e)
      | Inr source \<Rightarrow>
     (case get_sink_node n of
        Inl e \<Rightarrow> Some (Inl e)
      | Inr sink \<Rightarrow>
     (case calculate_max_flow (algorithm n) (node_id source) (node_id sink) of
        None \<Rightarrow> None
      | Some (Inl e) \<Rightarrow> Some (Inl e)
      | Some (Inr (max_flow, ff)) \<Rightarrow>
          (case get_min_cut ff (node_id source) of
             Inl e \<Rightarrow> Some (Inl e)
           | Inr (S, T) \<Rightarrow> Some (Inr ((max_flow, S, T), n\<lparr>algorithm := ff\<rparr>))))))"

text \<open>
  \<^verbatim>\<open>FlowNetwork.validate_network\<close>. \<open>dfs_loop\<close> is the \<^verbatim>\<open>while stack\<close> loop with its
  \<^verbatim>\<open>else\<close> clause: \<open>True\<close> when the loop is left by \<^verbatim>\<open>break\<close>, \<open>False\<close> when the
  stack runs empty (the \<^verbatim>\<open>else\<close> clause raises \<^verbatim>\<open>NetworkNotValidError\<close>, which the
  method catches). The head of the list is the top of the stack, so appending the end
  nodes of the outgoing edges one by one puts them on the front in reverse order. Only
  \<^verbatim>\<open>NetworkNotValidError\<close> is caught; any other exception propagates.
\<close>

function dfs_loop :: "Graph \<Rightarrow> string \<Rightarrow> string set \<Rightarrow> string list \<Rightarrow> error + bool" where
  "dfs_loop g sink_id visited [] = Inr False"
| "dfs_loop g sink_id visited (current_id # stack) =
     (if current_id = sink_id then Inr True
      else if current_id \<notin> visited then
        (case get_edges_from_node g current_id of
           Inl e \<Rightarrow> Inl e
         | Inr es \<Rightarrow> dfs_loop g sink_id (insert current_id visited) (rev (map end_node_id es) @ stack))
      else dfs_loop g sink_id visited stack)"
  by pat_completeness auto

termination dfs_loop
proof (relation "(\<lambda>(g, sink_id, V, st). card ((edge_ends g \<union> set st) - V)) <*mlex*> measure (\<lambda>(g, sink_id, V, st). length st)")
  show "wf ((\<lambda>(g::Graph, sink_id::string, V, st). card ((edge_ends g \<union> set st) - V)) <*mlex*> measure (\<lambda>(g, sink_id, V, st). length st))"
    by (simp add: wf_mlex)
next
  fix g :: Graph and sink_id current_id :: string and visited :: "string set" and stack es
  assume a: "current_id \<notin> visited" "get_edges_from_node g current_id = Inr es"
  have "end_node_id ` set es \<subseteq> edge_ends g"
    unfolding edge_ends_def using get_edges_from_node_subset[OF a(2)] by (rule image_mono)
  then have sub: "(edge_ends g \<union> set (rev (map end_node_id es) @ stack)) - insert current_id visited
        \<subseteq> (edge_ends g \<union> set (current_id # stack)) - visited - {current_id}" by auto
  have fin: "finite ((edge_ends g \<union> set (current_id # stack)) - visited)" by (simp add: edge_ends_def)
  have "card ((edge_ends g \<union> set (current_id # stack)) - visited - {current_id})
        < card ((edge_ends g \<union> set (current_id # stack)) - visited)"
    using a(1) fin by (intro card_Diff1_less) auto
  moreover have "card ((edge_ends g \<union> set (rev (map end_node_id es) @ stack)) - insert current_id visited)
      \<le> card ((edge_ends g \<union> set (current_id # stack)) - visited - {current_id})"
    using sub fin by (intro card_mono) auto
  ultimately show "((g, sink_id, insert current_id visited, rev (map end_node_id es) @ stack),
          (g, sink_id, visited, current_id # stack))
         \<in> (\<lambda>(g, sink_id, V, st). card ((edge_ends g \<union> set st) - V)) <*mlex*> measure (\<lambda>(g, sink_id, V, st). length st)"
    by (simp add: mlex_prod_def)
next
  fix g :: Graph and sink_id current_id :: string and visited :: "string set" and stack
  assume a: "\<not> current_id \<notin> visited"
  have fin: "finite ((edge_ends g \<union> set (current_id # stack)) - visited)" by (simp add: edge_ends_def)
  have "card ((edge_ends g \<union> set stack) - visited) \<le> card ((edge_ends g \<union> set (current_id # stack)) - visited)"
    using fin by (intro card_mono) auto
  then show "((g, sink_id, visited, stack), (g, sink_id, visited, current_id # stack))
         \<in> (\<lambda>(g, sink_id, V, st). card ((edge_ends g \<union> set st) - V)) <*mlex*> measure (\<lambda>(g, sink_id, V, st). length st)"
    by (auto simp add: mlex_prod_def)
qed

definition validate_network :: "FlowNetwork \<Rightarrow> error + bool" where
  "validate_network n =
     (let sources = get_source_nodes (fn_graph n); sinks = get_sink_nodes (fn_graph n) in
      if length sources \<noteq> 1 then Inr False
      else if length sinks \<noteq> 1 then Inr False
      else dfs_loop (fn_graph n) (node_id (hd sinks)) {} [node_id (hd sources)])"

section \<open>Example networks\<close>

text \<open>A single node that is flagged as source and as sink, as \<^verbatim>\<open>add_node\<close> accepts it.\<close>

definition both_roles_network :: FlowNetwork where
  "both_roles_network =
     \<lparr>algorithm =
        \<lparr>graph =
           \<lparr>nodes = [(''n'', \<lparr>node_id = ''n'', node_name = ''n'', is_source = True, is_sink = True\<rparr>)],
            edges = [],
            adjacency_list = [(''n'', [])]\<rparr>,
         residual_graph = Graph_init\<rparr>\<rparr>"

section \<open>Evaluation of the small string and dictionary operations\<close>

lemma FlowNetwork_init_eq:
  "FlowNetwork_init = Inr \<lparr>algorithm = \<lparr>graph = Graph_init, residual_graph = Graph_init\<rparr>\<rparr>"
  by (simp add: FlowNetwork_init_def FordFulkerson_init_def build_residual_graph_def
      get_all_nodes_def get_all_edges_def Graph_init_def)

lemma both_roles_network_built:
  "fn_add_node \<lparr>algorithm = \<lparr>graph = Graph_init, residual_graph = Graph_init\<rparr>\<rparr> ''n'' [] True True
     = Inr both_roles_network"
  by (simp add: fn_add_node_def add_node_def fn_graph_def set_fn_graph_def Graph_init_def
      has_key_def Node_init_def both_roles_network_def)

definition chain_graph :: Graph where
  "chain_graph =
     \<lparr>nodes = [(''s'', \<lparr>node_id = ''s'', node_name = ''Source'', is_source = True, is_sink = False\<rparr>),
               (''A'', \<lparr>node_id = ''A'', node_name = ''Node A'', is_source = False, is_sink = False\<rparr>),
               (''t'', \<lparr>node_id = ''t'', node_name = ''Sink'', is_source = False, is_sink = True\<rparr>)],
      edges = [(''e1'', \<lparr>edge_id = ''e1'', start_node_id = ''s'', end_node_id = ''A'', capacity = 10, flow = 0\<rparr>),
               (''e2'', \<lparr>edge_id = ''e2'', start_node_id = ''A'', end_node_id = ''t'', capacity = 5, flow = 0\<rparr>)],
      adjacency_list = [(''s'', [''e1'']), (''A'', [''e2'']), (''t'', [])]\<rparr>"

definition chain_graph_done :: Graph where
  "chain_graph_done =
     chain_graph\<lparr>edges :=
       [(''e1'', \<lparr>edge_id = ''e1'', start_node_id = ''s'', end_node_id = ''A'', capacity = 10, flow = 5\<rparr>),
        (''e2'', \<lparr>edge_id = ''e2'', start_node_id = ''A'', end_node_id = ''t'', capacity = 5, flow = 5\<rparr>)]\<rparr>"

definition chain_residual_done :: Graph where
  "chain_residual_done =
     \<lparr>nodes = nodes chain_graph,
      edges = [(''e1_forward'', \<lparr>edge_id = ''e1_forward'', start_node_id = ''s'', end_node_id = ''A'', capacity = 5, flow = 0\<rparr>),
               (''e1_backward'', \<lparr>edge_id = ''e1_backward'', start_node_id = ''A'', end_node_id = ''s'', capacity = 5, flow = 0\<rparr>),
               (''e2_backward'', \<lparr>edge_id = ''e2_backward'', start_node_id = ''t'', end_node_id = ''A'', capacity = 5, flow = 0\<rparr>)],
      adjacency_list = [(''s'', [''e1_forward'']), (''A'', [''e1_backward'']), (''t'', [''e2_backward''])]\<rparr>"

definition chain_network :: FlowNetwork where
  "chain_network = \<lparr>algorithm = \<lparr>graph = chain_graph, residual_graph = Graph_init\<rparr>\<rparr>"


definition zero_flows :: "Graph \<Rightarrow> bool" where
  "zero_flows g = list_all (\<lambda>e. flow e = 0) (get_all_edges g)"

lemma chain_network_built:
  "(case FlowNetwork_init of Inl e \<Rightarrow> Inl e | Inr n0 \<Rightarrow>
    case fn_add_node n0 ''s'' ''Source'' True False of Inl e \<Rightarrow> Inl e | Inr n1 \<Rightarrow>
    case fn_add_node n1 ''A'' ''Node A'' False False of Inl e \<Rightarrow> Inl e | Inr n2 \<Rightarrow>
    case fn_add_node n2 ''t'' ''Sink'' False True of Inl e \<Rightarrow> Inl e | Inr n3 \<Rightarrow>
    case fn_add_edge n3 ''e1'' ''s'' ''A'' 10 of Inl e \<Rightarrow> Inl e | Inr n4 \<Rightarrow>
    fn_add_edge n4 ''e2'' ''A'' ''t'' 5) = Inr chain_network"
  by code_simp

lemma chain_max_flow_code:
  "calculate_max_flow \<lparr>graph = chain_graph, residual_graph = Graph_init\<rparr> ''s'' ''t''
     = Some (Inr (5, \<lparr>graph = chain_graph_done, residual_graph = chain_residual_done\<rparr>))"
  by code_simp



definition zero_flow :: "string \<times> Edge \<Rightarrow> string \<times> Edge" where
  "zero_flow = (\<lambda>(k, e). (k, e\<lparr>flow := 0\<rparr>))"

lemma zero_flow_update:
  "map_of d k = Some e \<Longrightarrow> map zero_flow (AList.update k (e\<lparr>flow := x\<rparr>) d) = map zero_flow d"
  by (induction d) (auto simp: zero_flow_def)

lemma update_flow_step_skeleton:
  assumes "update_flow_step f a g = Inr g'"
  shows "nodes g' = nodes g \<and> adjacency_list g' = adjacency_list g
         \<and> map zero_flow (edges g') = map zero_flow (edges g)"
  using assms
  by (auto simp: update_flow_step_def get_edge_def Let_def zero_flow_update
      split: if_splits option.splits)

lemma for_each_update_skeleton:
  "for_each (update_flow_step f) p g = Inr g' \<Longrightarrow>
   nodes g' = nodes g \<and> adjacency_list g' = adjacency_list g
   \<and> map zero_flow (edges g') = map zero_flow (edges g)"
proof (induction p arbitrary: g)
  case Nil then show ?case by simp
next
  case (Cons a p)
  from Cons.prems obtain g1 where s: "update_flow_step f a g = Inr g1"
    and r: "for_each (update_flow_step f) p g1 = Inr g'"
    by (auto split: sum.splits)
  from update_flow_step_skeleton[OF s] Cons.IH[OF r] show ?case by simp
qed

lemma update_flows_skeleton:
  assumes "update_flows ff p f = Inr ff'"
  shows "nodes (graph ff') = nodes (graph ff) \<and> adjacency_list (graph ff') = adjacency_list (graph ff)
         \<and> map zero_flow (edges (graph ff')) = map zero_flow (edges (graph ff))"
  using assms for_each_update_skeleton[of f p "graph ff"]
  by (auto simp: update_flows_def split: sum.splits)

lemma build_residual_graph_graph:
  "build_residual_graph ff = Inr ff' \<Longrightarrow> ff' = ff\<lparr>residual_graph := residual_graph ff'\<rparr>"
  by (auto simp: build_residual_graph_def split: sum.splits)

lemma build_residual_graph_rebuild:
  assumes "build_residual_graph (ff\<lparr>residual_graph := Graph_init\<rparr>) = Inr ff1"
  shows "build_residual_graph (ff1\<lparr>residual_graph := Graph_init\<rparr>) = Inr ff1"
proof -
  from build_residual_graph_graph[OF assms]
  have "ff1\<lparr>residual_graph := Graph_init\<rparr> = ff\<lparr>residual_graph := Graph_init\<rparr>"
    by (metis FordFulkerson.surjective FordFulkerson.update_convs(2))
  with assms show ?thesis by simp
qed

lemmas max_flow_loop_induct = max_flow_loop.raw_induct[rotated -1, consumes 1, case_names step]

lemma max_flow_loop_result:
  assumes "max_flow_loop s t acc ff = Some r"
  shows "case r of Inl e \<Rightarrow> True
         | Inr (v, ff') \<Rightarrow>
             build_residual_graph (ff'\<lparr>residual_graph := Graph_init\<rparr>) = Inr ff'
             \<and> find_augmenting_path ff' s t = Some (Inr None)
             \<and> nodes (graph ff') = nodes (graph ff)
             \<and> adjacency_list (graph ff') = adjacency_list (graph ff)
             \<and> map zero_flow (edges (graph ff')) = map zero_flow (edges (graph ff))"
  using assms
proof (induction s t acc ff r rule: max_flow_loop_induct)
  case (step loop s t acc ff r)
  show ?case
  proof (cases "build_residual_graph (ff\<lparr>residual_graph := Graph_init\<rparr>)")
    case (Inl e)
    with step(2) show ?thesis by auto
  next
    case (Inr ff1)
    note b = build_residual_graph_graph[OF Inr]
    have g1: "graph ff1 = graph ff" by (subst b) simp
    show ?thesis
    proof (cases "find_augmenting_path ff1 s t")
      case None
      with step(2) Inr show ?thesis by simp
    next
      case (Some fr)
      show ?thesis
      proof (cases fr)
        case (Inl e)
        with step(2) Inr Some show ?thesis by auto
      next
        case fr: (Inr po)
        show ?thesis
        proof (cases po)
          case None
          with step(2) Inr Some fr have "r = Inr (acc, ff1)" by simp
          with build_residual_graph_rebuild[OF Inr] Some fr None g1 show ?thesis by simp
        next
          case po: (Some mp)
          obtain m p where mp: "mp = (m, p)" by (cases mp)
          show ?thesis
          proof (cases m)
            case None
            with step(2) Inr Some fr po mp show ?thesis by simp
          next
            case m: (Some f)
            show ?thesis
            proof (cases "update_flows ff1 p f")
              case (Inl e)
              with step(2) Inr Some fr po mp m show ?thesis by auto
            next
              case u: (Inr ff2)
              with step(2) Inr Some fr po mp m have "loop s t (acc + f) ff2 = Some r" by simp
              from step(1)[OF this] update_flows_skeleton[OF u] g1 show ?thesis
                by (auto split: sum.splits)
            qed
          qed
        qed
      qed
    qed
  qed
qed



lemma calculate_max_flow_result:
  assumes "calculate_max_flow ff s t = Some (Inr (v, ff'))"
  shows "max_flow_loop s t 0 ff = Some (Inr (v, ff'))"
  using assms
  by (auto simp: calculate_max_flow_def split: if_splits sum.splits)







text \<open>
  A network built through the facade: a sequence of \<^verbatim>\<open>add_node\<close> and \<^verbatim>\<open>add_edge\<close>
  calls on a fresh \<^verbatim>\<open>FlowNetwork()\<close>, stopping at the first call that raises.
\<close>

datatype insertion =
    AddNode string string bool bool
  | AddEdge string string string rat

fun apply_insertion :: "insertion \<Rightarrow> FlowNetwork \<Rightarrow> error + FlowNetwork" where
  "apply_insertion (AddNode i nm src snk) n = fn_add_node n i nm src snk"
| "apply_insertion (AddEdge i s t c) n = fn_add_edge n i s t c"

definition build_network :: "insertion list \<Rightarrow> error + FlowNetwork" where
  "build_network ops =
     (case FlowNetwork_init of
        Inl e \<Rightarrow> Inl e
      | Inr n \<Rightarrow> for_each apply_insertion ops n)"




text \<open>
  Two edges whose ids are \<open>x\<close> and \<open>x_forward\<close>, in a chain \<open>s \<rightarrow> a \<rightarrow> t\<close> and as
  parallel edges \<open>s \<rightarrow> t\<close>.
\<close>

definition suffix_chain_graph :: Graph where
  "suffix_chain_graph =
     \<lparr>nodes = [(''s'', \<lparr>node_id = ''s'', node_name = ''s'', is_source = True, is_sink = False\<rparr>),
               (''a'', \<lparr>node_id = ''a'', node_name = ''a'', is_source = False, is_sink = False\<rparr>),
               (''t'', \<lparr>node_id = ''t'', node_name = ''t'', is_source = False, is_sink = True\<rparr>)],
      edges = [(''x'', \<lparr>edge_id = ''x'', start_node_id = ''s'', end_node_id = ''a'', capacity = 5, flow = 0\<rparr>),
               (''x_forward'', \<lparr>edge_id = ''x_forward'', start_node_id = ''a'', end_node_id = ''t'', capacity = 5, flow = 0\<rparr>)],
      adjacency_list = [(''s'', [''x'']), (''a'', [''x_forward'']), (''t'', [])]\<rparr>"

definition suffix_chain_residual :: Graph where
  "suffix_chain_residual =
     \<lparr>nodes = nodes suffix_chain_graph,
      edges = [(''x_forward'', \<lparr>edge_id = ''x_forward'', start_node_id = ''s'', end_node_id = ''a'', capacity = 5, flow = 0\<rparr>),
               (''x_forward_forward'', \<lparr>edge_id = ''x_forward_forward'', start_node_id = ''a'', end_node_id = ''t'', capacity = 5, flow = 0\<rparr>)],
      adjacency_list = [(''s'', [''x_forward'']), (''a'', [''x_forward_forward'']), (''t'', [])]\<rparr>"

definition suffix_chain_graph_done :: Graph where
  "suffix_chain_graph_done =
     suffix_chain_graph\<lparr>edges :=
       [(''x'', \<lparr>edge_id = ''x'', start_node_id = ''s'', end_node_id = ''a'', capacity = 5, flow = 10\<rparr>),
        (''x_forward'', \<lparr>edge_id = ''x_forward'', start_node_id = ''a'', end_node_id = ''t'', capacity = 5, flow = 0\<rparr>)]\<rparr>"

definition parallel_graph :: "rat \<Rightarrow> Graph" where
  "parallel_graph q =
     \<lparr>nodes = [(''s'', \<lparr>node_id = ''s'', node_name = ''s'', is_source = True, is_sink = False\<rparr>),
               (''t'', \<lparr>node_id = ''t'', node_name = ''t'', is_source = False, is_sink = True\<rparr>)],
      edges = [(''x'', \<lparr>edge_id = ''x'', start_node_id = ''s'', end_node_id = ''t'', capacity = 1, flow = q\<rparr>),
               (''x_forward'', \<lparr>edge_id = ''x_forward'', start_node_id = ''s'', end_node_id = ''t'', capacity = 5, flow = 0\<rparr>)],
      adjacency_list = [(''s'', [''x'', ''x_forward'']), (''t'', [])]\<rparr>"

section \<open>Quantities the claims speak about\<close>

definition inflow :: "Graph \<Rightarrow> string \<Rightarrow> rat" where
  "inflow g i = sum_list (map flow (filter (\<lambda>e. end_node_id e = i) (get_all_edges g)))"

definition outflow :: "Graph \<Rightarrow> string \<Rightarrow> rat" where
  "outflow g i = sum_list (map flow (filter (\<lambda>e. start_node_id e = i) (get_all_edges g)))"


definition flow_ok :: "Graph \<Rightarrow> bool" where
  "flow_ok g = list_all (\<lambda>e. 0 \<le> flow e \<and> flow e \<le> capacity e) (get_all_edges g)"

lemma suffix_chain_build:
  "build_network [AddNode ''s'' [] True False, AddNode ''a'' [] False False,
                  AddNode ''t'' [] False True, AddEdge ''x'' ''s'' ''a'' 5,
                  AddEdge ''x_forward'' ''a'' ''t'' 5]
     = Inr \<lparr>algorithm = \<lparr>graph = suffix_chain_graph, residual_graph = Graph_init\<rparr>\<rparr>"
  by code_simp

lemma parallel_build:
  "build_network [AddNode ''s'' [] True False, AddNode ''t'' [] False True,
                  AddEdge ''x'' ''s'' ''t'' 1, AddEdge ''x_forward'' ''s'' ''t'' 5]
     = Inr \<lparr>algorithm = \<lparr>graph = parallel_graph 0, residual_graph = Graph_init\<rparr>\<rparr>"
  by code_simp

definition parallel_residual_first :: Graph where
  "parallel_residual_first =
     \<lparr>nodes = nodes (parallel_graph 0),
      edges = [(''x_forward'', \<lparr>edge_id = ''x_forward'', start_node_id = ''s'', end_node_id = ''t'', capacity = 1, flow = 0\<rparr>),
               (''x_forward_forward'', \<lparr>edge_id = ''x_forward_forward'', start_node_id = ''s'', end_node_id = ''t'', capacity = 5, flow = 0\<rparr>)],
      adjacency_list = [(''s'', [''x_forward'', ''x_forward_forward'']), (''t'', [])]\<rparr>"

definition parallel_residual :: "rat \<Rightarrow> Graph" where
  "parallel_residual q =
     \<lparr>nodes = nodes (parallel_graph q),
      edges = [(''x_backward'', \<lparr>edge_id = ''x_backward'', start_node_id = ''t'', end_node_id = ''s'', capacity = q, flow = 0\<rparr>),
               (''x_forward_forward'', \<lparr>edge_id = ''x_forward_forward'', start_node_id = ''s'', end_node_id = ''t'', capacity = 5, flow = 0\<rparr>)],
      adjacency_list = [(''s'', [''x_forward_forward'']), (''t'', [''x_backward''])]\<rparr>"

lemma parallel_first_round:
  "build_residual_graph \<lparr>graph = parallel_graph 0, residual_graph = Graph_init\<rparr>
     = Inr \<lparr>graph = parallel_graph 0, residual_graph = parallel_residual_first\<rparr>
   \<and> find_augmenting_path \<lparr>graph = parallel_graph 0, residual_graph = parallel_residual_first\<rparr> ''s'' ''t''
     = Some (Inr (Some (Some 1, [''x_forward''])))
   \<and> update_flows \<lparr>graph = parallel_graph 0, residual_graph = parallel_residual_first\<rparr> [''x_forward''] 1
     = Inr \<lparr>graph = parallel_graph 1, residual_graph = parallel_residual_first\<rparr>"
  by code_simp

lemma parallel_build_residual:
  assumes "1 \<le> q"
  shows "build_residual_graph \<lparr>graph = parallel_graph q, residual_graph = Graph_init\<rparr>
         = Inr \<lparr>graph = parallel_graph q, residual_graph = parallel_residual q\<rparr>"
  using assms
  by (simp add: build_residual_graph_def parallel_graph_def parallel_residual_def Graph_init_def
      get_all_nodes_def get_all_edges_def copy_node_step_def add_node_def has_key_def Node_init_def
      residual_edge_step_def residual_capacity_def add_edge_def get_node_def Edge_init_def)

lemma parallel_find_path:
  assumes "1 \<le> q"
  shows "find_augmenting_path \<lparr>graph = parallel_graph q, residual_graph = parallel_residual q\<rparr> ''s'' ''t''
         = Some (Inr (Some (Some 5, [''x_forward_forward''])))"
  using assms
  by (simp add: find_augmenting_path_def bfs_def parallel_residual_def parallel_graph_def
      get_edges_from_node_def bfs_visit_pair walk_parents.simps get_edge_def min_inf_def)

lemma parallel_update:
  "update_flows \<lparr>graph = parallel_graph q, residual_graph = r\<rparr> [''x_forward_forward''] 5
     = Inr \<lparr>graph = parallel_graph (q + 5), residual_graph = r\<rparr>"
  by (simp add: update_flows_def update_flow_step_def endswith_def str_remove_def get_edge_def
      parallel_graph_def Let_def)

lemma parallel_loop_diverges:
  assumes "max_flow_loop s t acc ff = Some r"
  shows "\<not> (s = ''s'' \<and> t = ''t'' \<and> (\<exists>q\<ge>1. graph ff = parallel_graph q))"
  using assms
proof (induction s t acc ff r rule: max_flow_loop_induct)
  case (step loop s t acc ff r)
  show ?case
  proof
    assume a: "s = ''s'' \<and> t = ''t'' \<and> (\<exists>q\<ge>1. graph ff = parallel_graph q)"
    then obtain q where q: "1 \<le> q" "graph ff = parallel_graph q" by blast
    have ff: "ff\<lparr>residual_graph := Graph_init\<rparr> = \<lparr>graph = parallel_graph q, residual_graph = Graph_init\<rparr>"
      using q(2) by (cases ff) simp
    from step(2) a
    have "loop ''s'' ''t'' (acc + 5) \<lparr>graph = parallel_graph (q + 5), residual_graph = parallel_residual q\<rparr> = Some r"
      by (simp add: ff parallel_build_residual[OF q(1)] parallel_find_path[OF q(1)] parallel_update)
    from step(1)[OF this] have "\<not> (\<exists>q'\<ge>1. parallel_graph (q + 5) = parallel_graph q')" by simp
    moreover have "1 \<le> q + 5" using q(1) by simp
    ultimately show False by blast
  qed
qed

section \<open>Well-formed graphs\<close>

text \<open>
  The invariant that the public operations of \<^verbatim>\<open>Graph\<close> keep: dictionary keys are
  unique and equal to the stored id, node ids and names are not empty, the end points of
  an edge are two different stored nodes, and the adjacency index lists, for every node
  in node order, the ids of the edges that start there in edge order.
\<close>

definition adjacency_of :: "(string \<times> Node) list \<Rightarrow> (string \<times> Edge) list \<Rightarrow> (string \<times> string list) list" where
  "adjacency_of ns es = map (\<lambda>(k, _). (k, map fst (filter (\<lambda>(i, e). start_node_id e = k) es))) ns"

definition wf_graph :: "Graph \<Rightarrow> bool" where
  "wf_graph g \<longleftrightarrow>
     distinct (map fst (nodes g))
     \<and> list_all (\<lambda>(k, n). node_id n = k \<and> k \<noteq> [] \<and> node_name n \<noteq> []) (nodes g)
     \<and> distinct (map fst (edges g))
     \<and> list_all (\<lambda>(k, e). edge_id e = k \<and> has_key (nodes g) (start_node_id e)
                    \<and> has_key (nodes g) (end_node_id e)
                    \<and> start_node_id e \<noteq> end_node_id e) (edges g)
     \<and> adjacency_list g = adjacency_of (nodes g) (edges g)"

definition out_edges :: "Graph \<Rightarrow> string \<Rightarrow> Edge list" where
  "out_edges g u = map snd (filter (\<lambda>(i, e). start_node_id e = u) (edges g))"

lemma has_key_iff: "has_key d k \<longleftrightarrow> k \<in> fst ` set d"
  by (simp add: has_key_def map_of_eq_None_iff)

lemma alist_update_new: "\<not> has_key d k \<Longrightarrow> AList.update k v d = d @ [(k, v)]"
  by (induction d) (auto simp: has_key_def)

lemma wf_graph_init: "wf_graph Graph_init"
  by (simp add: wf_graph_def Graph_init_def adjacency_of_def)

lemma adjacency_of_snoc_node:
  "adjacency_of (ns @ [(i, n)]) es
     = adjacency_of ns es @ [(i, map fst (filter (\<lambda>(j, e). start_node_id e = i) es))]"
  by (simp add: adjacency_of_def)

lemma map_fst_adjacency_of: "map fst (adjacency_of ns es) = map fst ns"
  by (induction ns) (auto simp: adjacency_of_def)

lemma map_of_adjacency_of:
  "map_of (adjacency_of ns es) u
     = (if has_key ns u then Some (map fst (filter (\<lambda>(i, e). start_node_id e = u) es)) else None)"
  by (induction ns) (auto simp: adjacency_of_def has_key_def)

lemma add_node_wf:
  assumes "wf_graph g" and "add_node g i nm src snk = Inr g'"
  shows "wf_graph g'"
proof -
  from assms(2) have nk: "\<not> has_key (nodes g) i" and ne: "i \<noteq> []"
    by (auto simp: add_node_def Node_init_def split: if_splits)
  define n where "n = \<lparr>node_id = i, node_name = (if nm = [] then i else nm), is_source = src, is_sink = snk\<rparr>"
  have nka: "\<not> has_key (adjacency_list g) i"
    using nk assms(1) by (simp add: has_key_iff wf_graph_def flip: set_map) (simp add: map_fst_adjacency_of)
  have no_start: "filter (\<lambda>(j, e). start_node_id e = i) (edges g) = []"
    using assms(1) nk by (auto simp: wf_graph_def list_all_iff filter_empty_conv)
  from assms(2) nk ne
  have g': "g' = g\<lparr>nodes := nodes g @ [(i, n)], adjacency_list := adjacency_list g @ [(i, [])]\<rparr>"
    by (auto simp: add_node_def Node_init_def n_def alist_update_new[OF nk] alist_update_new[OF nka]
        split: if_splits)
  have "adjacency_list g' = adjacency_of (nodes g') (edges g')"
    using assms(1) by (simp add: g' wf_graph_def adjacency_of_snoc_node no_start)
  moreover have "distinct (map fst (nodes g'))"
    using assms(1) nk by (auto simp: g' wf_graph_def has_key_iff)
  moreover have "list_all (\<lambda>(k, n). node_id n = k \<and> k \<noteq> [] \<and> node_name n \<noteq> []) (nodes g')"
    using assms(1) ne by (auto simp: g' wf_graph_def n_def)
  moreover have "list_all (\<lambda>(k, e). edge_id e = k \<and> has_key (nodes g') (start_node_id e)
                    \<and> has_key (nodes g') (end_node_id e)
                    \<and> start_node_id e \<noteq> end_node_id e) (edges g')"
    using assms(1) by (auto simp: g' wf_graph_def list_all_iff has_key_iff)
  moreover have "distinct (map fst (edges g'))" using assms(1) by (simp add: g' wf_graph_def)
  ultimately show ?thesis by (simp add: wf_graph_def)
qed

lemma alist_update_adjacency_of:
  assumes "distinct (map fst ns)" and "has_key ns s"
  shows "AList.update s (map fst (filter (\<lambda>(j, e). start_node_id e = s) es) @ [i]) (adjacency_of ns es)
         = adjacency_of ns (es @ [(i, \<lparr>edge_id = i, start_node_id = s, end_node_id = t, capacity = c, flow = f\<rparr>)])"
  using assms
  by (induction ns) (auto simp: adjacency_of_def has_key_iff image_iff)

lemma add_edge_wf:
  assumes wf: "wf_graph g" and nk: "\<not> has_key (edges g) i"
    and s: "has_key (nodes g) s" and t: "has_key (nodes g) t" and st: "s \<noteq> t"
    and i: "i \<noteq> []" and c: "0 \<le> c"
  shows "add_edge g i s t c
         = Inr (g\<lparr>edges := edges g @ [(i, \<lparr>edge_id = i, start_node_id = s, end_node_id = t, capacity = c, flow = 0\<rparr>)],
                  adjacency_list := adjacency_of (nodes g)
                     (edges g @ [(i, \<lparr>edge_id = i, start_node_id = s, end_node_id = t, capacity = c, flow = 0\<rparr>)])\<rparr>)"
    (is "_ = Inr ?g'")
    and "wf_graph (g\<lparr>edges := edges g @ [(i, \<lparr>edge_id = i, start_node_id = s, end_node_id = t, capacity = c, flow = 0\<rparr>)],
                  adjacency_list := adjacency_of (nodes g)
                     (edges g @ [(i, \<lparr>edge_id = i, start_node_id = s, end_node_id = t, capacity = c, flow = 0\<rparr>)])\<rparr>)"
proof -
  have d: "distinct (map fst (nodes g))" and adj: "adjacency_list g = adjacency_of (nodes g) (edges g)"
    using wf by (simp_all add: wf_graph_def)
  obtain sn tn where sn: "map_of (nodes g) s = Some sn" and tn: "map_of (nodes g) t = Some tn"
    using s t by (auto simp: has_key_def)
  show "add_edge g i s t c = Inr ?g'"
    using nk st i c sn tn s
    by (simp add: add_edge_def get_node_def Edge_init_def adj map_of_adjacency_of
        alist_update_new[OF nk] alist_update_adjacency_of[OF d s])
  show "wf_graph ?g'"
    using wf nk s t st by (auto simp: wf_graph_def has_key_iff list_all_iff)
qed

lemma lookup_all_filter:
  assumes "distinct (map fst d)"
  shows "lookup_all d (map fst (filter P d)) = Inr (map snd (filter P d))"
proof -
  have "\<And>xs. set xs \<subseteq> set d \<Longrightarrow> lookup_all d (map fst xs) = Inr (map snd xs)"
  proof -
    fix xs show "set xs \<subseteq> set d \<Longrightarrow> lookup_all d (map fst xs) = Inr (map snd xs)"
      using assms by (induction xs) auto
  qed
  then show ?thesis by simp
qed

lemma get_edges_from_node_wf:
  assumes "wf_graph g"
  shows "get_edges_from_node g u = Inr (out_edges g u)"
proof (cases "has_key (nodes g) u")
  case True
  then show ?thesis
    using assms
    by (simp add: get_edges_from_node_def wf_graph_def map_of_adjacency_of lookup_all_filter out_edges_def)
next
  case False
  have "filter (\<lambda>(i, e). start_node_id e = u) (edges g) = []"
    using assms False by (auto simp: wf_graph_def list_all_iff filter_empty_conv)
  then show ?thesis
    using assms False
    by (simp add: get_edges_from_node_def wf_graph_def map_of_adjacency_of out_edges_def)
qed

section \<open>The residual graph as the specification describes it\<close>

text \<open>
  For every edge, in edge order: a forward arc \<open>id_forward\<close> with the residual capacity
  when that is positive, then a backward arc \<open>id_backward\<close> from end to start with the
  flow as capacity when the flow is positive. The nodes are those of the graph, and the
  adjacency index is the one these arcs determine.
\<close>

definition forward_arc :: "Edge \<Rightarrow> Edge" where
  "forward_arc e = \<lparr>edge_id = edge_id e @ ''_forward'', start_node_id = start_node_id e,
                    end_node_id = end_node_id e, capacity = residual_capacity e, flow = 0\<rparr>"

definition backward_arc :: "Edge \<Rightarrow> Edge" where
  "backward_arc e = \<lparr>edge_id = edge_id e @ ''_backward'', start_node_id = end_node_id e,
                     end_node_id = start_node_id e, capacity = flow e, flow = 0\<rparr>"

definition residual_arcs :: "Edge \<Rightarrow> Edge list" where
  "residual_arcs e =
     (if residual_capacity e > 0 then [forward_arc e] else [])
     @ (if flow e > 0 then [backward_arc e] else [])"

definition arcs_of :: "Edge list \<Rightarrow> (string \<times> Edge) list" where
  "arcs_of es = map (\<lambda>a. (edge_id a, a)) (concat (map residual_arcs es))"

definition residual_spec :: "Graph \<Rightarrow> Graph" where
  "residual_spec g =
     \<lparr>nodes = nodes g,
      edges = arcs_of (get_all_edges g),
      adjacency_list = adjacency_of (nodes g) (arcs_of (get_all_edges g))\<rparr>"

lemma forward_ne_backward: "x @ ''_forward'' \<noteq> y @ ''_backward''"
proof
  assume "x @ ''_forward'' = y @ ''_backward''"
  then have "rev (x @ ''_forward'') = rev (y @ ''_backward'')" by simp
  then show False by simp
qed

lemma edge_id_forward_arc [simp]: "edge_id (forward_arc e) = edge_id e @ ''_forward''"
  by (simp add: forward_arc_def)

lemma edge_id_backward_arc [simp]: "edge_id (backward_arc e) = edge_id e @ ''_backward''"
  by (simp add: backward_arc_def)

lemma arcs_of_Nil [simp]: "arcs_of [] = []"
  by (simp add: arcs_of_def)

lemma arcs_of_Cons: "arcs_of (e # es) = arcs_of [e] @ arcs_of es"
  by (simp add: arcs_of_def)

lemma arcs_of_append: "arcs_of (es @ es') = arcs_of es @ arcs_of es'"
  by (simp add: arcs_of_def)

lemma fst_arcs_of:
  "fst ` set (arcs_of es) \<subseteq> (\<lambda>e. edge_id e @ ''_forward'') ` set es \<union> (\<lambda>e. edge_id e @ ''_backward'') ` set es"
  by (auto simp: arcs_of_def residual_arcs_def forward_arc_def backward_arc_def split: if_splits)

lemma copy_nodes:
  assumes "distinct (map fst (pre @ ns))"
    and "list_all (\<lambda>(k, n). node_id n = k \<and> k \<noteq> [] \<and> node_name n \<noteq> []) ns"
  shows "for_each copy_node_step (map snd ns)
           \<lparr>nodes = pre, edges = [], adjacency_list = adjacency_of pre []\<rparr>
         = Inr \<lparr>nodes = pre @ ns, edges = [], adjacency_list = adjacency_of (pre @ ns) []\<rparr>"
  using assms
proof (induction ns arbitrary: pre)
  case Nil then show ?case by simp
next
  case (Cons kn ns)
  obtain k n where kn: "kn = (k, n)" by (cases kn)
  from Cons.prems kn have nk: "\<not> has_key pre k" and n: "node_id n = k" "k \<noteq> []" "node_name n \<noteq> []"
    by (auto simp: has_key_iff)
  have nka: "\<not> has_key (adjacency_of pre []) k"
    using nk by (simp add: has_key_iff flip: set_map) (simp add: map_fst_adjacency_of)
  have step: "copy_node_step n \<lparr>nodes = pre, edges = [], adjacency_list = adjacency_of pre []\<rparr>
        = Inr \<lparr>nodes = pre @ [(k, n)], edges = [], adjacency_list = adjacency_of (pre @ [(k, n)]) []\<rparr>"
    using nk n
    by (simp add: copy_node_step_def add_node_def Node_init_def alist_update_new[OF nk]
        alist_update_new[OF nka] adjacency_of_snoc_node)
  have "distinct (map fst ((pre @ [(k, n)]) @ ns))" using Cons.prems(1) kn by simp
  moreover have "list_all (\<lambda>(k, n). node_id n = k \<and> k \<noteq> [] \<and> node_name n \<noteq> []) ns"
    using Cons.prems(2) by simp
  ultimately have "for_each copy_node_step (map snd ns)
           \<lparr>nodes = pre @ [(k, n)], edges = [], adjacency_list = adjacency_of (pre @ [(k, n)]) []\<rparr>
         = Inr \<lparr>nodes = (pre @ [(k, n)]) @ ns, edges = [], adjacency_list = adjacency_of ((pre @ [(k, n)]) @ ns) []\<rparr>"
    by (rule Cons.IH)
  with step show ?case by (simp add: kn)
qed

text \<open>The residual graph while the edges are being added: the nodes and the arcs so far.\<close>

definition partial_residual :: "(string \<times> Node) list \<Rightarrow> (string \<times> Edge) list \<Rightarrow> Graph" where
  "partial_residual ns as = \<lparr>nodes = ns, edges = as, adjacency_list = adjacency_of ns as\<rparr>"

lemma add_arc:
  assumes wf: "wf_graph (partial_residual ns as)" and nk: "\<not> has_key as i"
    and s: "has_key ns s" and t: "has_key ns t" and st: "s \<noteq> t" and i: "i \<noteq> []" and c: "0 \<le> c"
  shows "add_edge (partial_residual ns as) i s t c
         = Inr (partial_residual ns (as @ [(i, \<lparr>edge_id = i, start_node_id = s, end_node_id = t, capacity = c, flow = 0\<rparr>)]))"
    and "wf_graph (partial_residual ns (as @ [(i, \<lparr>edge_id = i, start_node_id = s, end_node_id = t, capacity = c, flow = 0\<rparr>)]))"
  using add_edge_wf[of "partial_residual ns as" i s t c] assms
  by (simp_all add: partial_residual_def)

lemma residual_edge_step_spec:
  assumes wf: "wf_graph (partial_residual ns as)"
    and f: "\<not> has_key as (edge_id e @ ''_forward'')" and b: "\<not> has_key as (edge_id e @ ''_backward'')"
    and s: "has_key ns (start_node_id e)" and t: "has_key ns (end_node_id e)"
    and st: "start_node_id e \<noteq> end_node_id e"
  shows "residual_edge_step e (partial_residual ns as) = Inr (partial_residual ns (as @ arcs_of [e]))"
    and "wf_graph (partial_residual ns (as @ arcs_of [e]))"
proof -
  let ?fa = "(edge_id e @ ''_forward'', forward_arc e)"
  let ?ba = "(edge_id e @ ''_backward'', backward_arc e)"
  have f1: "0 < residual_capacity e \<Longrightarrow>
      add_edge (partial_residual ns as) (edge_id e @ ''_forward'') (start_node_id e) (end_node_id e) (residual_capacity e)
        = Inr (partial_residual ns (as @ [?fa]))"
    and f2: "0 < residual_capacity e \<Longrightarrow> wf_graph (partial_residual ns (as @ [?fa]))"
    using add_arc[OF wf f s t st, of "residual_capacity e"] by (simp_all add: forward_arc_def)
  have b': "\<not> has_key (as @ [?fa]) (edge_id e @ ''_backward'')"
    using b by (simp add: has_key_iff forward_ne_backward[symmetric])
  have b1: "\<And>as'. wf_graph (partial_residual ns as') \<Longrightarrow> \<not> has_key as' (edge_id e @ ''_backward'') \<Longrightarrow> 0 < flow e \<Longrightarrow>
      add_edge (partial_residual ns as') (edge_id e @ ''_backward'') (end_node_id e) (start_node_id e) (flow e)
        = Inr (partial_residual ns (as' @ [?ba]))
      \<and> wf_graph (partial_residual ns (as' @ [?ba]))"
    using add_arc[OF _ _ t s st[symmetric], of _ "edge_id e @ ''_backward''" "flow e"]
    by (simp add: backward_arc_def)
  show "residual_edge_step e (partial_residual ns as) = Inr (partial_residual ns (as @ arcs_of [e]))"
    using f1 f2 b1[OF wf b] b1[OF f2 b']
    by (simp add: residual_edge_step_def arcs_of_def residual_arcs_def)
  show "wf_graph (partial_residual ns (as @ arcs_of [e]))"
    using wf f2 b1[OF wf b] b1[OF f2 b']
    by (simp add: arcs_of_def residual_arcs_def)
qed

lemma residual_edges:
  assumes "wf_graph (partial_residual ns as)"
    and "distinct (map fst es)"
    and "list_all (\<lambda>(k, e). edge_id e = k \<and> has_key ns (start_node_id e) \<and> has_key ns (end_node_id e)
                    \<and> start_node_id e \<noteq> end_node_id e) es"
    and "\<forall>(k, e)\<in>set es. \<not> has_key as (k @ ''_forward'') \<and> \<not> has_key as (k @ ''_backward'')"
  shows "for_each residual_edge_step (map snd es) (partial_residual ns as)
         = Inr (partial_residual ns (as @ arcs_of (map snd es)))
         \<and> wf_graph (partial_residual ns (as @ arcs_of (map snd es)))"
  using assms
proof (induction es arbitrary: as)
  case Nil then show ?case by simp
next
  case (Cons ke es)
  obtain k e where ke: "ke = (k, e)" by (cases ke)
  from Cons.prems(3) ke have e: "edge_id e = k" "has_key ns (start_node_id e)" "has_key ns (end_node_id e)"
      "start_node_id e \<noteq> end_node_id e" by auto
  from Cons.prems(4) ke e(1) have fr: "\<not> has_key as (edge_id e @ ''_forward'')" "\<not> has_key as (edge_id e @ ''_backward'')"
    by auto
  note st = residual_edge_step_spec[OF Cons.prems(1) fr e(2,3,4)]
  have fresh: "\<forall>(k', e')\<in>set es. \<not> has_key (as @ arcs_of [e]) (k' @ ''_forward'')
                  \<and> \<not> has_key (as @ arcs_of [e]) (k' @ ''_backward'')"
  proof (clarify, rule conjI)
    fix k' e' assume in_es: "(k', e') \<in> set es"
    with Cons.prems(2) ke have ne: "k' \<noteq> k" by (auto simp: image_iff)
    from in_es Cons.prems(4) have old: "\<not> has_key as (k' @ ''_forward'')" "\<not> has_key as (k' @ ''_backward'')"
      by auto
    have new: "fst ` set (arcs_of [e]) \<subseteq> {k @ ''_forward'', k @ ''_backward''}"
      using fst_arcs_of[of "[e]"] e(1) by auto
    show "\<not> has_key (as @ arcs_of [e]) (k' @ ''_forward'')"
      using old(1) new ne by (auto simp: has_key_iff forward_ne_backward)
    show "\<not> has_key (as @ arcs_of [e]) (k' @ ''_backward'')"
      using old(2) new ne forward_ne_backward[of k k'] by (auto simp: has_key_iff)
  qed
  have d: "distinct (map fst es)" using Cons.prems(2) by simp
  have l: "list_all (\<lambda>(k, e). edge_id e = k \<and> has_key ns (start_node_id e) \<and> has_key ns (end_node_id e)
                    \<and> start_node_id e \<noteq> end_node_id e) es" using Cons.prems(3) by simp
  from Cons.IH[OF st(2) d l fresh] st(1)
  show ?case by (simp add: ke arcs_of_Cons[of e "map snd es"])
qed

lemma build_residual_graph_spec:
  assumes "wf_graph (graph ff)"
  shows "build_residual_graph (ff\<lparr>residual_graph := Graph_init\<rparr>)
         = Inr (ff\<lparr>residual_graph := residual_spec (graph ff)\<rparr>)"
    and "wf_graph (residual_spec (graph ff))"
proof -
  let ?g = "graph ff"
  have wf: "distinct (map fst (nodes ?g))"
      "list_all (\<lambda>(k, n). node_id n = k \<and> k \<noteq> [] \<and> node_name n \<noteq> []) (nodes ?g)"
      "distinct (map fst (edges ?g))"
      "list_all (\<lambda>(k, e). edge_id e = k \<and> has_key (nodes ?g) (start_node_id e)
                    \<and> has_key (nodes ?g) (end_node_id e)
                    \<and> start_node_id e \<noteq> end_node_id e) (edges ?g)"
    using assms by (simp_all add: wf_graph_def)
  have n: "for_each copy_node_step (get_all_nodes ?g) Graph_init = Inr (partial_residual (nodes ?g) [])"
    using copy_nodes[of "[]" "nodes ?g"] wf(1,2)
    by (simp add: get_all_nodes_def Graph_init_def partial_residual_def adjacency_of_def)
  have wf0: "wf_graph (partial_residual (nodes ?g) [])"
    using wf(1,2) by (simp add: wf_graph_def partial_residual_def)
  have e: "for_each residual_edge_step (get_all_edges ?g) (partial_residual (nodes ?g) [])
         = Inr (partial_residual (nodes ?g) ([] @ arcs_of (get_all_edges ?g)))
         \<and> wf_graph (partial_residual (nodes ?g) ([] @ arcs_of (get_all_edges ?g)))"
    unfolding get_all_edges_def
    by (rule residual_edges[OF wf0 wf(3,4)]) (simp add: has_key_def)
  have r: "partial_residual (nodes ?g) (arcs_of (get_all_edges ?g)) = residual_spec ?g"
    by (simp add: partial_residual_def residual_spec_def)
  show "build_residual_graph (ff\<lparr>residual_graph := Graph_init\<rparr>)
         = Inr (ff\<lparr>residual_graph := residual_spec (graph ff)\<rparr>)"
    using n e r by (simp add: build_residual_graph_def)
  show "wf_graph (residual_spec (graph ff))" using e r by simp
qed


lemma set_arcs_of:
  "snd ` set (arcs_of es)
     = {forward_arc e | e. e \<in> set es \<and> residual_capacity e > 0}
       \<union> {backward_arc e | e. e \<in> set es \<and> flow e > 0}"
  by (auto simp: arcs_of_def residual_arcs_def image_iff split: if_splits)

lemma chain_done_residual_spec: "residual_spec chain_graph_done = chain_residual_done"
  by code_simp

lemma chain_done_wf: "wf_graph chain_graph_done"
  by code_simp

lemma add_edge_Inr_wf:
  assumes "wf_graph g" and "add_edge g i s t c = Inr g'"
  shows "wf_graph g'"
proof -
  from assms(2) have c: "\<not> has_key (edges g) i" "has_key (nodes g) s" "has_key (nodes g) t" "s \<noteq> t"
      "i \<noteq> []" "0 \<le> c"
    by (auto simp: add_edge_def get_node_def Edge_init_def has_key_def split: if_splits option.splits sum.splits)
  from add_edge_wf[OF assms(1) c] assms(2) show ?thesis by simp
qed

lemma set_fn_graph_graph [simp]: "fn_graph (set_fn_graph n g) = g"
  by (simp add: fn_graph_def set_fn_graph_def)

lemma apply_insertion_wf:
  assumes "wf_graph (fn_graph n)" and "apply_insertion x n = Inr n'"
  shows "wf_graph (fn_graph n')"
  using assms
  by (cases x) (auto simp: fn_add_node_def fn_add_edge_def split: sum.splits
      dest: add_node_wf add_edge_Inr_wf)

lemma for_each_insertions_wf:
  "wf_graph (fn_graph n) \<Longrightarrow> for_each apply_insertion ops n = Inr n' \<Longrightarrow> wf_graph (fn_graph n')"
proof (induction ops arbitrary: n)
  case Nil then show ?case by simp
next
  case (Cons x ops)
  from Cons.prems(2) obtain n1 where a: "apply_insertion x n = Inr n1"
    and r: "for_each apply_insertion ops n1 = Inr n'" by (auto split: sum.splits)
  from Cons.IH[OF apply_insertion_wf[OF Cons.prems(1) a] r] show ?case .
qed

lemma build_network_wf:
  assumes "build_network ops = Inr n"
  shows "wf_graph (fn_graph n)"
proof -
  have "wf_graph (fn_graph \<lparr>algorithm = \<lparr>graph = Graph_init, residual_graph = Graph_init\<rparr>\<rparr>)"
    by (simp add: fn_graph_def wf_graph_init)
  with assms show ?thesis
    by (auto simp: build_network_def FlowNetwork_init_eq dest: for_each_insertions_wf)
qed

section \<open>Breadth-first search on a well-formed graph\<close>



lemma reach_loop_total:
  "wf_graph rg \<Longrightarrow> \<exists>S. reach_loop rg V Q = Inr S"
proof (induction rg V Q rule: reach_loop.induct)
  case (1 rg V) then show ?case by simp
next
  case (2 rg V c Q)
  obtain V' Q' where f: "foldl reach_visit (V, Q) (out_edges rg c) = (V', Q')"
    by (cases "foldl reach_visit (V, Q) (out_edges rg c)")
  from "2.IH"[OF get_edges_from_node_wf[OF "2.prems"] f[symmetric] "2.prems"] f "2.prems"
  show ?case by (simp add: get_edges_from_node_wf)
qed

















lemma min_inf_simps [simp]: "min_inf None c = Some c" "min_inf (Some m) c = Some (min m c)"
  by (simp_all add: min_inf_def)




section \<open>Arc ids and the edge ids recovered from them\<close>






lemma endswith_append [simp]: "endswith (x @ p) p"
  by (simp add: endswith_def)

lemma not_endswith_backward_forward [simp]: "\<not> endswith (x @ ''_backward'') ''_forward''"
proof
  assume "endswith (x @ ''_backward'') ''_forward''"
  then have "drop (Suc (length x)) (x @ ''_backward'') = ''_forward''"
    by (simp add: endswith_def)
  then show False by simp
qed

section \<open>The effect of one flow update\<close>

text \<open>Adding \<open>d\<close> to the flow of the edge stored under the key \<open>k\<close>.\<close>

definition bump_entry :: "string \<Rightarrow> rat \<Rightarrow> string \<times> Edge \<Rightarrow> string \<times> Edge" where
  "bump_entry k d = (\<lambda>(k', e). (k', if k' = k then e\<lparr>flow := flow e + d\<rparr> else e))"

definition bump :: "string \<Rightarrow> rat \<Rightarrow> Graph \<Rightarrow> Graph" where
  "bump k d g = g\<lparr>edges := map (bump_entry k d) (edges g)\<rparr>"





lemma bump_simps [simp]:
  "nodes (bump k d g) = nodes g" "adjacency_list (bump k d g) = adjacency_list g"
  "map fst (edges (bump k d g)) = map fst (edges g)"
  by (simp_all add: bump_def bump_entry_def case_prod_unfold)

lemma map_of_bump_entry:
  "map_of (map (bump_entry k d) xs) k'
     = map_option (\<lambda>e. if k' = k then e\<lparr>flow := flow e + d\<rparr> else e) (map_of xs k')"
  by (induction xs) (auto simp: bump_entry_def)

lemma map_of_bump:
  "map_of (edges (bump k d g)) k'
     = map_option (\<lambda>e. if k' = k then e\<lparr>flow := flow e + d\<rparr> else e) (map_of (edges g) k')"
  by (simp add: bump_def map_of_bump_entry)





text \<open>
  A path as the update loop reads it: for every arc, the key of the original edge and
  whether the arc is the forward one.
\<close>

definition arc_id :: "string \<times> bool \<Rightarrow> string" where
  "arc_id = (\<lambda>(k, fw). k @ (if fw then ''_forward'' else ''_backward''))"

definition bump_arc :: "rat \<Rightarrow> string \<times> bool \<Rightarrow> Graph \<Rightarrow> Graph" where
  "bump_arc b = (\<lambda>(k, fw). bump k (if fw then b else - b))"

definition arc_delta :: "Graph \<Rightarrow> string \<Rightarrow> string \<times> bool \<Rightarrow> rat" where
  "arc_delta g i = (\<lambda>(k, fw).
     case map_of (edges g) k of
       None \<Rightarrow> 0
     | Some e \<Rightarrow> (if fw then 1 else - 1)
                 * ((if end_node_id e = i then 1 else 0) - (if start_node_id e = i then 1 else 0)))"





lemma fold_bump_simps [simp]:
  "nodes (fold (bump_arc b) sp g) = nodes g"
  "adjacency_list (fold (bump_arc b) sp g) = adjacency_list g"
  "map fst (edges (fold (bump_arc b) sp g)) = map fst (edges g)"
  by (induction sp arbitrary: g) (simp_all add: bump_arc_def case_prod_unfold)

lemma arc_delta_bump [simp]: "arc_delta (bump k d g) i = arc_delta g i"
  by (auto simp: arc_delta_def map_of_bump fun_eq_iff split: option.splits)


section \<open>One augmentation\<close>

definition same_skeleton :: "Graph \<Rightarrow> Graph \<Rightarrow> bool" where
  "same_skeleton g' g \<longleftrightarrow>
     nodes g' = nodes g \<and> adjacency_list g' = adjacency_list g
     \<and> map zero_flow (edges g') = map zero_flow (edges g)"








lemma same_skeleton_refl [simp]: "same_skeleton g g"
  by (simp add: same_skeleton_def)



text \<open>The original edge and the direction of an arc of the residual graph.\<close>

definition signed :: "Edge \<Rightarrow> string \<times> bool" where
  "signed a =
     (if endswith (edge_id a) ''_forward''
      then (take (length (edge_id a) - 8) (edge_id a), True)
      else (take (length (edge_id a) - 9) (edge_id a), False))"

lemma signed_forward [simp]: "signed (forward_arc e) = (edge_id e, True)"
  by (simp add: signed_def)

lemma signed_backward [simp]: "signed (backward_arc e) = (edge_id e, False)"
  by (simp add: signed_def)








section \<open>Termination of the augmentation loop\<close>













section \<open>The cut of the final residual graph\<close>












lemma validate_network_True:
  assumes "validate_network n = Inr True"
  shows "\<exists>src snk. get_source_nodes (fn_graph n) = [src] \<and> get_sink_nodes (fn_graph n) = [snk]"
proof -
  from assms have "length (get_source_nodes (fn_graph n)) = 1" "length (get_sink_nodes (fn_graph n)) = 1"
    by (auto simp: validate_network_def Let_def split: if_splits)
  then show ?thesis by (auto simp: length_Suc_conv)
qed


text \<open>
  A bottleneck of \<^verbatim>\<open>float('inf')\<close> is returned only when the walk starts at the source,
  with the empty path: the case that \<open>max_flow_loop\<close> models as a run that does not return.
\<close>

lemmas walk_parents_induct = walk_parents.raw_induct[rotated -1, consumes 1, case_names step]

lemma walk_parents_inf:
  assumes "walk_parents rg P s v m acc = Some r"
  shows "r = Inr (None, p) \<longrightarrow> m = None \<and> p = acc \<and> v = s"
  using assms
proof (induction rg P s v m acc r rule: walk_parents_induct)
  case (step walk rg P s v m acc r)
  show ?case
  proof (cases "v = s")
    case True
    with step(2) show ?thesis by auto
  next
    case False
    show ?thesis
    proof (cases "map_of P v")
      case None
      with step(2) False show ?thesis by auto
    next
      case (Some ua)
      obtain u a where ua: "ua = (u, a)" by (cases ua)
      show ?thesis
      proof (cases "get_edge rg a")
        case (Inl e)
        with step(2) False Some ua show ?thesis by auto
      next
        case (Inr arc)
        with step(2) False Some ua
        have "walk rg P s u (min_inf m (capacity arc)) (acc @ [a]) = Some r" by simp
        from step(1)[OF this] show ?thesis by (cases m) (simp_all add: min_inf_def)
      qed
    qed
  qed
qed

lemma find_augmenting_path_inf:
  assumes "find_augmenting_path ff s t = Some (Inr (Some (None, path)))"
  shows "s = t \<and> path = []"
proof -
  from assms obtain P p where "walk_parents (residual_graph ff) P s t None [] = Some (Inr (None, p))"
    and "path = rev p"
    by (auto simp: find_augmenting_path_def split: sum.splits option.splits if_splits)
  with walk_parents_inf[of "residual_graph ff" P s t None "[]" "Inr (None, p)" p]
  show ?thesis by simp
qed

section \<open>Claims\<close>

text \<open>
  C5 (lookups of a missing id fail with NotFound). \<^verbatim>\<open>graph.py\<close> and
  \<^verbatim>\<open>algorithms.py\<close> never import \<^verbatim>\<open>NodeNotFoundError\<close> and
  \<^verbatim>\<open>EdgeNotFoundError\<close>, so the lookups never produce them: on the empty graph
  \<^verbatim>\<open>get_node\<close>, \<^verbatim>\<open>get_edge\<close> and the solver's \<^verbatim>\<open>calculate_max_flow\<close> fail with
  \<^verbatim>\<open>NameError\<close> instead.
\<close>

theorem C5_missing_id_is_NameError:
  "get_node g i \<noteq> Inl NodeNotFoundError \<and> get_edge g j \<noteq> Inl EdgeNotFoundError
   \<and> get_node Graph_init ''a'' = Inl (NameError ''NodeNotFoundError'')
   \<and> get_edge Graph_init ''e'' = Inl (NameError ''EdgeNotFoundError'')
   \<and> calculate_max_flow \<lparr>graph = Graph_init, residual_graph = Graph_init\<rparr> ''s'' ''t''
       = Some (Inl (NameError ''NodeNotFoundError''))"
  by (simp add: get_node_def get_edge_def calculate_max_flow_def has_key_def Graph_init_def
      split: option.splits)

text \<open>
  C6 (validation rejects a node that is both source and sink). On the network whose
  only node carries both flags, \<^verbatim>\<open>validate_network\<close> returns \<^verbatim>\<open>True\<close>, while
  \<^verbatim>\<open>calculate_max_flow\<close> on the same network raises \<^verbatim>\<open>NetworkNotValidError\<close>.
\<close>

theorem C6_both_roles_passes_validation:
  "validate_network both_roles_network = Inr True
   \<and> fn_calculate_max_flow both_roles_network = Some (Inl NetworkNotValidError)"
  by (simp add: validate_network_def fn_calculate_max_flow_def calculate_max_flow_def
      get_source_node_def get_sink_node_def get_source_nodes_def get_sink_nodes_def
      fn_graph_def both_roles_network_def has_key_def)

text \<open>
  C10 (flows persist between solver runs). If \<^verbatim>\<open>calculate_max_flow(source_id, sink_id)\<close>
  has returned a value, calling it again on the resulting state, with no reset in
  between, returns 0 and leaves the state as it is.
\<close>

theorem C10_second_run_returns_zero:
  assumes "calculate_max_flow ff s t = Some (Inr (v, ff'))"
  shows "calculate_max_flow ff' s t = Some (Inr (0, ff'))"
proof -
  from calculate_max_flow_result[OF assms] have l: "max_flow_loop s t 0 ff = Some (Inr (v, ff'))" .
  from max_flow_loop_result[OF l]
  have b: "build_residual_graph (ff'\<lparr>residual_graph := Graph_init\<rparr>) = Inr ff'"
    and f: "find_augmenting_path ff' s t = Some (Inr None)"
    and n: "nodes (graph ff') = nodes (graph ff)" by simp_all
  have "max_flow_loop s t 0 ff' = Some (Inr (0, ff'))"
    by (subst max_flow_loop.simps) (simp add: b f)
  then show ?thesis
    using assms n
    by (auto simp: calculate_max_flow_def get_node_def split: if_splits sum.splits option.splits)
qed

theorem C10_second_run_returns_zero_witness:
  "calculate_max_flow \<lparr>graph = chain_graph, residual_graph = Graph_init\<rparr> ''s'' ''t''
     = Some (Inr (5, \<lparr>graph = chain_graph_done, residual_graph = chain_residual_done\<rparr>))
   \<and> calculate_max_flow \<lparr>graph = chain_graph_done, residual_graph = chain_residual_done\<rparr> ''s'' ''t''
     = Some (Inr (0, \<lparr>graph = chain_graph_done, residual_graph = chain_residual_done\<rparr>))"
  using C10_second_run_returns_zero[OF chain_max_flow_code] chain_max_flow_code by simp






text \<open>
  C2 (capacity bound at all times). On the chain with edge ids \<open>x\<close> and \<open>x_forward\<close>,
  all flows 0, the first augmenting path is \<open>[x_forward, x_forward_forward]\<close> with
  bottleneck 5; \<^verbatim>\<open>_update_flows\<close> maps both arc ids to the edge \<open>x\<close>, whose flow
  becomes 10 with capacity 5.
\<close>

theorem C2_flow_exceeds_capacity:
  "flow_ok suffix_chain_graph
   \<and> find_augmenting_path \<lparr>graph = suffix_chain_graph, residual_graph = suffix_chain_residual\<rparr> ''s'' ''t''
       = Some (Inr (Some (Some 5, [''x_forward'', ''x_forward_forward''])))
   \<and> update_flows \<lparr>graph = suffix_chain_graph, residual_graph = suffix_chain_residual\<rparr>
        [''x_forward'', ''x_forward_forward''] 5
       = Inr \<lparr>graph = suffix_chain_graph_done, residual_graph = suffix_chain_residual\<rparr>
   \<and> get_edge suffix_chain_graph_done ''x''
       = Inr \<lparr>edge_id = ''x'', start_node_id = ''s'', end_node_id = ''a'', capacity = 5, flow = 10\<rparr>
   \<and> \<not> flow_ok suffix_chain_graph_done"
  by code_simp

text \<open>
  C3 (flow conservation after a completed run). On the same chain the run completes and
  returns 5; in the final graph 10 flows into the inner node \<open>a\<close> and 0 flows out.
\<close>

theorem C3_conservation_broken:
  "zero_flows suffix_chain_graph
   \<and> map_option (map_sum id (\<lambda>(v, ff). (v, graph ff)))
        (calculate_max_flow \<lparr>graph = suffix_chain_graph, residual_graph = Graph_init\<rparr> ''s'' ''t'')
       = Some (Inr (5, suffix_chain_graph_done))
   \<and> inflow suffix_chain_graph_done ''a'' = 10
   \<and> outflow suffix_chain_graph_done ''a'' = 0"
  by code_simp

text \<open>
  C4 (termination). On the network with the parallel edges \<open>x\<close> (capacity 1) and
  \<open>x_forward\<close> (capacity 5) from \<open>s\<close> to \<open>t\<close>, all flows 0, the loop of
  \<^verbatim>\<open>calculate_max_flow\<close> never reaches \<^verbatim>\<open>break\<close>: after the first round every round
  finds the arc \<open>x_forward_forward\<close>, and \<^verbatim>\<open>_update_flows\<close> adds its bottleneck 5 to the
  edge \<open>x\<close>, so the edge \<open>x_forward\<close> keeps its residual capacity for ever.
\<close>

theorem C4_loop_does_not_return:
  "calculate_max_flow \<lparr>graph = parallel_graph 0, residual_graph = Graph_init\<rparr> ''s'' ''t'' = None"
proof -
  have "max_flow_loop ''s'' ''t'' 0 \<lparr>graph = parallel_graph 0, residual_graph = Graph_init\<rparr>
        = max_flow_loop ''s'' ''t'' (0 + 1) \<lparr>graph = parallel_graph 1, residual_graph = parallel_residual_first\<rparr>"
    using parallel_first_round
    by (subst max_flow_loop.simps) simp
  moreover have "max_flow_loop ''s'' ''t'' (0 + 1) \<lparr>graph = parallel_graph 1, residual_graph = parallel_residual_first\<rparr> = None"
    using parallel_loop_diverges[of "''s''" "''t''" "0 + 1" "\<lparr>graph = parallel_graph 1, residual_graph = parallel_residual_first\<rparr>"]
    by (cases "max_flow_loop ''s'' ''t'' (0 + 1) \<lparr>graph = parallel_graph 1, residual_graph = parallel_residual_first\<rparr>") auto
  ultimately have "max_flow_loop ''s'' ''t'' 0 \<lparr>graph = parallel_graph 0, residual_graph = Graph_init\<rparr> = None"
    by simp
  then show ?thesis
    by (simp add: calculate_max_flow_def parallel_graph_def has_key_def get_node_def)
qed

text \<open>
  C7 (residual graph construction). For a well-formed graph, building the residual graph
  into a fresh \<^verbatim>\<open>Graph()\<close> succeeds, leaves the graph itself as it was, and gives
  exactly the graph \<open>residual_spec\<close>: the same node dictionary, and as edges, each stored
  once under its own id, the forward arc \<open>id_forward\<close> (start to end, capacity the
  residual capacity) of every edge with positive residual capacity and the backward arc
  \<open>id_backward\<close> (end to start, capacity the flow) of every edge with positive flow,
  and nothing else.
\<close>

theorem C7_residual_graph_construction:
  assumes "wf_graph (graph ff)"
  shows "build_residual_graph (ff\<lparr>residual_graph := Graph_init\<rparr>)
           = Inr (ff\<lparr>residual_graph := residual_spec (graph ff)\<rparr>)
         \<and> graph (ff\<lparr>residual_graph := residual_spec (graph ff)\<rparr>) = graph ff
         \<and> nodes (residual_spec (graph ff)) = nodes (graph ff)
         \<and> distinct (map fst (edges (residual_spec (graph ff))))
         \<and> list_all (\<lambda>(k, a). edge_id a = k) (edges (residual_spec (graph ff)))
         \<and> set (get_all_edges (residual_spec (graph ff)))
             = {forward_arc e | e. e \<in> set (get_all_edges (graph ff)) \<and> residual_capacity e > 0}
               \<union> {backward_arc e | e. e \<in> set (get_all_edges (graph ff)) \<and> flow e > 0}"
proof -
  note b = build_residual_graph_spec[OF assms]
  have "list_all (\<lambda>(k, a). edge_id a = k) (edges (residual_spec (graph ff)))"
    using b(2) by (auto simp: wf_graph_def list_all_iff)
  moreover have "distinct (map fst (edges (residual_spec (graph ff))))"
    using b(2) by (simp add: wf_graph_def)
  moreover have "set (get_all_edges (residual_spec (graph ff)))
             = {forward_arc e | e. e \<in> set (get_all_edges (graph ff)) \<and> residual_capacity e > 0}
               \<union> {backward_arc e | e. e \<in> set (get_all_edges (graph ff)) \<and> flow e > 0}"
    using set_arcs_of[of "get_all_edges (graph ff)"]
    by (simp add: residual_spec_def get_all_edges_def)
  ultimately show ?thesis using b(1) by (simp add: residual_spec_def)
qed

theorem C7_residual_graph_construction_witness:
  "wf_graph chain_graph_done
   \<and> build_residual_graph \<lparr>graph = chain_graph_done, residual_graph = Graph_init\<rparr>
       = Inr \<lparr>graph = chain_graph_done, residual_graph = chain_residual_done\<rparr>"
  using C7_residual_graph_construction[of "\<lparr>graph = chain_graph_done, residual_graph = Graph_init\<rparr>"]
    chain_done_wf chain_done_residual_spec
  by simp



end
